theory Spec2Isabelle
  imports Main
begin

section \<open>logtofile.c: audit lines redirected to a rotating file\<close>

text \<open>
  A shallow embedding of \<^verbatim>\<open>src/logtofile.c\<close>. Every C function that the
  properties below speak about is a HOL function of the same name. The statics of one
  backend process are the fields of the record \<open>worker\<close>, the configuration variables
  those of \<open>guc\<close>, and what the server and the C library hand to the code during one
  call (clock readings, the outcome of \<^verbatim>\<open>fopen\<close> and \<^verbatim>\<open>fwrite\<close>, the session
  context) those of \<open>host\<close>. A crash of the C code is a value of type \<open>fault\<close>.
\<close>

subsection \<open>Faults and C arithmetic\<close>

datatype fault = DivisionByZero | NullDereference | OutOfBoundsRead

text \<open>Sequencing of calls that may crash: the first fault ends the run.\<close>

definition and_then :: "fault + 'a \<Rightarrow> ('a \<Rightarrow> fault + 'b) \<Rightarrow> fault + 'b" where
  "and_then r k = (case r of Inl f \<Rightarrow> Inl f | Inr v \<Rightarrow> k v)"

text \<open>
  The remainder operator \<^verbatim>\<open>%\<close> of C truncates towards zero: the result has the sign
  of the dividend. HOL's \<open>mod\<close> rounds down instead, so the C operator is written out.
  It is only applied to a nonzero divisor.
\<close>

definition c_rem :: "int \<Rightarrow> int \<Rightarrow> int" where
  "c_rem a b = sgn a * (\<bar>a\<bar> mod \<bar>b\<bar>)"

definition SECS_PER_MINUTE :: int where
  "SECS_PER_MINUTE = 60"

definition INT_MAX :: int where
  "INT_MAX = 2147483647"

subsection \<open>Registration of \<^verbatim>\<open>pgaudit.log_rotation_age\<close> (lines 194-200)\<close>

text \<open>
  \<^verbatim>\<open>DefineCustomIntVariable\<close> is given the bounds \<^verbatim>\<open>0\<close> and
  \<^verbatim>\<open>INT_MAX / SECS_PER_MINUTE\<close> and no check hook (\<^verbatim>\<open>NULL\<close>), so the server accepts
  exactly the values within the bounds.
\<close>

definition log_rotation_age_min :: int where
  "log_rotation_age_min = 0"

definition log_rotation_age_max :: int where
  "log_rotation_age_max = INT_MAX div SECS_PER_MINUTE"

definition log_rotation_age_accepted :: "int \<Rightarrow> bool" where
  "log_rotation_age_accepted v = (log_rotation_age_min \<le> v \<and> v \<le> log_rotation_age_max)"

subsection \<open>Data\<close>

text \<open>
  A \<^verbatim>\<open>FILE *\<close> that is not \<^verbatim>\<open>NULL\<close> is a stream; the model keeps the path it was
  opened on. What the process does to the outside world is appended to \<open>io_trace\<close>.
\<close>

datatype FILE = FILE (stream_path: string)

datatype io_event =
    Mkdir "string option"
  | Fopen string bool
  | Setvbuf FILE
  | Fseek FILE
  | Fwrite FILE string
  | Fflush FILE
  | Fclose FILE
  | WarnOpen string
  | WarnWrite string

text \<open>
  The statics of the file (lines 86-92, 508-511, 76). \<open>pgaudit_log_shm\<close> is \<open>None\<close> for
  the \<^verbatim>\<open>NULL\<close> pointer and otherwise holds \<^verbatim>\<open>force_rotation\<close> as this process reads
  it.
\<close>

record worker =
  pgaudit_log_shm :: "bool option"
  file_handler :: "FILE option"
  filename_in_use :: string
  filename :: string
  next_rotation_time :: int
  log_line_number :: int
  log_my_pid :: int
  formatted_start_time :: string
  io_trace :: "io_event list"

text \<open>The configuration variables (lines 95-100); a string may be \<^verbatim>\<open>NULL\<close>.\<close>

record guc =
  guc_pgaudit_log_directory :: "string option"
  guc_pgaudit_log_filename :: "string option"
  guc_pgaudit_log_rotation_age :: int
  guc_pgaudit_log_connections :: bool
  guc_pgaudit_log_disconnections :: bool

text \<open>The fields of \<^verbatim>\<open>Port\<close>, \<^verbatim>\<open>PGPROC\<close> and \<^verbatim>\<open>ErrorData\<close> that the code reads.
  \<^verbatim>\<open>edata->filename\<close> and \<^verbatim>\<open>edata->context\<close> are \<open>err_filename\<close> and
  \<open>err_context\<close> here.\<close>

record Port =
  user_name :: "string option"
  database_name :: "string option"
  remote_host :: "string option"
  remote_port :: "string option"

record PGPROC =
  backendId :: int
  lxid :: nat

record ErrorData =
  output_to_server :: bool
  hide_stmt :: bool
  sqlerrcode :: int
  message :: "string option"
  detail :: "string option"
  detail_log :: "string option"
  hint :: "string option"
  err_context :: "string option"
  internalquery :: "string option"
  internalpos :: int
  cursorpos :: int
  funcname :: "string option"
  err_filename :: "string option"
  lineno :: int

text \<open>
  What the server and the C library supply during one call of the hook:
  \<^item> \<open>time_of_check\<close> and \<open>time_of_calculation\<close>: the two readings of \<^verbatim>\<open>time(NULL)\<close>,
    at line 376 and at line 394;
  \<^item> \<open>tm_gmtoff\<close>: the offset \<^verbatim>\<open>pg_localtime(&now, log_timezone)->tm_gmtoff\<close>;
  \<^item> \<open>pg_strftime n pat t\<close>: the C string that
    \<^verbatim>\<open>pg_strftime(buf, n, pat, pg_localtime(&t, log_timezone))\<close> leaves in its buffer;
  \<^item> \<open>fopen_succeeds\<close>: whether \<^verbatim>\<open>fopen(path, "a")\<close> returns a stream;
  \<^item> \<open>fwrite_count\<close>: the count \<^verbatim>\<open>fwrite\<close> returns for a buffer;
  \<^item> \<open>prev_emit_log_hook\<close>: the hook saved by \<^verbatim>\<open>_PG_init\<close>, if any;
  \<^item> \<open>log_time_text\<close> and \<open>start_time_text\<close>: the text that
    \<^verbatim>\<open>pgauditlogtofile_format_log_time\<close> and \<^verbatim>\<open>pgauditlogtofile_format_start_time\<close>
    leave in their buffers;
  \<^item> the session context read by the formatter.
\<close>

record host =
  time_of_check :: int
  time_of_calculation :: int
  tm_gmtoff :: int
  pg_strftime :: "nat \<Rightarrow> string \<Rightarrow> int \<Rightarrow> string"
  fopen_succeeds :: "string \<Rightarrow> bool"
  fwrite_count :: "string \<Rightarrow> nat"
  prev_emit_log_hook :: "(ErrorData \<Rightarrow> ErrorData) option"
  MyProcPort :: "Port option"
  MyProcPid :: int
  MyStartTime :: int
  ps_display :: string
  MyProc :: "PGPROC option"
  top_transaction_id :: nat
  unpack_sql_state :: "int \<Rightarrow> string"
  debug_query_string :: "string option"
  Log_error_verbosity :: int
  application_name :: "string option"
  log_time_text :: string
  start_time_text :: string

definition MAXPGPATH :: nat where
  "MAXPGPATH = 1024"

definition PGERROR_VERBOSE :: int where
  "PGERROR_VERBOSE = 2"

definition InvalidBackendId :: int where
  "InvalidBackendId = - 1"

definition PGAUDIT_PREFIX_LINE :: string where
  "PGAUDIT_PREFIX_LINE = ''AUDIT: ''"

definition PGAUDIT_PREFIX_LINE_LENGTH :: nat where
  "PGAUDIT_PREFIX_LINE_LENGTH = length PGAUDIT_PREFIX_LINE"

definition pgAuditLogToFileConnPrefixes :: "string list" where
  "pgAuditLogToFileConnPrefixes =
     [''connection authenticated: identity='',
      ''connection authorized: user='',
      ''connection received: host='',
      ''password authentication failed for user'',
      ''replication connection authorized: user='']"

definition pgAuditLogToFileConnPrefixesLen :: "nat list" where
  "pgAuditLogToFileConnPrefixesLen = [35, 28, 26, 39, 40]"

definition pgAuditLogToFileDisconnPrefixes :: "string list" where
  "pgAuditLogToFileDisconnPrefixes = [''disconnection: session time:'']"

definition pgAuditLogToFileDisconnPrefixesLen :: "nat list" where
  "pgAuditLogToFileDisconnPrefixesLen = [28]"

subsection \<open>Library functions\<close>

text \<open>
  Modelled from the spec: \<^verbatim>\<open>pg_strncasecmp\<close> belongs to the server
  (\<^verbatim>\<open>src/port/pgstrcasecmp.c\<close>); the spec calls it a case-insensitive compare. It
  compares at most \<open>n\<close> bytes, stops at the terminating NUL, folds \<^verbatim>\<open>A\<close>-\<^verbatim>\<open>Z\<close> to
  lower case and returns the difference of the first two bytes that differ after
  folding, or 0. The locale's folding of bytes above 127 is left out.
\<close>

definition byte_at :: "string \<Rightarrow> nat" where
  "byte_at s = (case s of [] \<Rightarrow> 0 | c # _ \<Rightarrow> of_char c)"

definition fold_upper :: "nat \<Rightarrow> nat" where
  "fold_upper ch = (if 65 \<le> ch \<and> ch \<le> 90 then ch + 32 else ch)"

fun pg_strncasecmp :: "string \<Rightarrow> string \<Rightarrow> nat \<Rightarrow> int" where
  "pg_strncasecmp s1 s2 0 = 0"
| "pg_strncasecmp s1 s2 (Suc n) =
     (let ch1 = byte_at s1; ch2 = byte_at s2
      in if ch1 \<noteq> ch2 \<and> fold_upper ch1 \<noteq> fold_upper ch2
         then int (fold_upper ch1) - int (fold_upper ch2)
         else if ch1 = 0 then 0
         else pg_strncasecmp (tl s1) (tl s2) n)"

text \<open>Two texts are equal under case-insensitive comparison when they agree byte by byte
  after \<^verbatim>\<open>A\<close>-\<^verbatim>\<open>Z\<close> are folded to lower case.\<close>

definition same_ignoring_case :: "string \<Rightarrow> string \<Rightarrow> bool" where
  "same_ignoring_case a b =
     (map (\<lambda>c. fold_upper (of_char c)) a = map (\<lambda>c. fold_upper (of_char c)) b)"

text \<open>The conversions of \<^verbatim>\<open>appendStringInfo\<close>: \<^verbatim>\<open>%d\<close> and \<^verbatim>\<open>%ld\<close>, \<^verbatim>\<open>%u\<close>,
  \<^verbatim>\<open>%x\<close> (an \<^verbatim>\<open>int\<close> read as unsigned, 32 bits) and \<^verbatim>\<open>%lx\<close> (64 bits).\<close>

definition digit_char :: "nat \<Rightarrow> char" where
  "digit_char d = ''0123456789abcdef'' ! (d mod 16)"

fun digits_in :: "nat \<Rightarrow> nat \<Rightarrow> string" where
  "digits_in b n =
     (if b < 2 \<or> n < b then [digit_char n]
      else digits_in b (n div b) @ [digit_char (n mod b)])"

declare digits_in.simps [simp del]

definition fmt_u :: "nat \<Rightarrow> string" where
  "fmt_u n = digits_in 10 n"

definition fmt_d :: "int \<Rightarrow> string" where
  "fmt_d i = (if i < 0 then CHR ''-'' # digits_in 10 (nat (- i)) else digits_in 10 (nat i))"

definition fmt_x :: "int \<Rightarrow> string" where
  "fmt_x i = digits_in 16 (nat (i mod 2 ^ 32))"

definition fmt_lx :: "int \<Rightarrow> string" where
  "fmt_lx i = digits_in 16 (nat (i mod 2 ^ 64))"

text \<open>\<^verbatim>\<open>if (p) appendStringInfoString(buf, p)\<close>: nothing for \<^verbatim>\<open>NULL\<close>.\<close>

definition append_if_set :: "string option \<Rightarrow> string" where
  "append_if_set p = (case p of None \<Rightarrow> [] | Some v \<Rightarrow> v)"

subsection \<open>The force-rotation request (lines 132-142)\<close>

text \<open>\<open>used_shmem\<close> is \<^verbatim>\<open>UsedShmemSegAddr != NULL\<close>.\<close>

definition pgauditlogtofile_request_rotation :: "bool \<Rightarrow> worker \<Rightarrow> fault + worker" where
  "pgauditlogtofile_request_rotation used_shmem s =
     (if \<not> used_shmem then Inr s
      else (case pgaudit_log_shm s of
              None \<Rightarrow> Inl NullDereference
            | Some force_rotation \<Rightarrow>
                if \<not> force_rotation then Inr (s\<lparr>pgaudit_log_shm := Some True\<rparr>)
                else Inr s))"

subsection \<open>The rotation clock (lines 393-407)\<close>

text \<open>
  Times are \<^verbatim>\<open>pg_time_t\<close> seconds, taken as integers: a clock reading, an offset of
  at most a day and an interval of at most \<^verbatim>\<open>INT_MAX\<close> seconds stay far inside 64
  bits. With an interval of zero the C code evaluates \<^verbatim>\<open>now % 0\<close>.
\<close>

definition pgauditlogtofile_calculate_next_rotation_time ::
    "host \<Rightarrow> guc \<Rightarrow> worker \<Rightarrow> fault + worker" where
  "pgauditlogtofile_calculate_next_rotation_time h g s =
     (let now = time_of_calculation h;
          gmtoff = tm_gmtoff h;
          rotinterval = guc_pgaudit_log_rotation_age g * SECS_PER_MINUTE;
          now = now + gmtoff
      in if rotinterval = 0 then Inl DivisionByZero
         else
           (let now = now - c_rem now rotinterval;
                now = now + rotinterval;
                now = now - gmtoff
            in Inr (s\<lparr>next_rotation_time := now\<rparr>)))"

subsection \<open>The target filename (lines 457-471)\<close>

text \<open>
  \<^verbatim>\<open>snprintf\<close> keeps at most \<^verbatim>\<open>MAXPGPATH - 1\<close> bytes of the directory and the slash;
  the pattern is rendered behind them. Passing \<^verbatim>\<open>NULL\<close> for the directory or the
  pattern is a fault.
\<close>

definition pgauditlogtofile_calculate_filename :: "host \<Rightarrow> guc \<Rightarrow> worker \<Rightarrow> fault + worker" where
  "pgauditlogtofile_calculate_filename h g s =
     (let current_rotation_time =
            next_rotation_time s - guc_pgaudit_log_rotation_age g * SECS_PER_MINUTE
      in case guc_pgaudit_log_directory g of
           None \<Rightarrow> Inl NullDereference
         | Some directory \<Rightarrow>
             (case guc_pgaudit_log_filename g of
                None \<Rightarrow> Inl NullDereference
              | Some pattern \<Rightarrow>
                  (let head = take (MAXPGPATH - 1) (directory @ ''/'');
                       len = length head
                   in Inr (s\<lparr>filename :=
                        head @ pg_strftime h (MAXPGPATH - len) pattern current_rotation_time\<rparr>))))"

subsection \<open>Start-up of the shared block (lines 236-258)\<close>

text \<open>\<open>found\<close> and \<open>segment\<close> are what \<^verbatim>\<open>ShmemInitStruct\<close> reports: whether the block
  existed already, and its flag in that case.\<close>

definition pgauditlogtofile_shmem_startup ::
    "host \<Rightarrow> guc \<Rightarrow> bool \<Rightarrow> bool \<Rightarrow> worker \<Rightarrow> fault + worker" where
  "pgauditlogtofile_shmem_startup h g found segment s =
     (if \<not> found then
        and_then (pgauditlogtofile_calculate_next_rotation_time h g (s\<lparr>pgaudit_log_shm := Some False\<rparr>))
          (pgauditlogtofile_calculate_filename h g)
      else Inr (s\<lparr>pgaudit_log_shm := Some segment\<rparr>))"

subsection \<open>The file session (lines 326-341, 412-452)\<close>

definition pgauditlogtofile_close_file :: "worker \<Rightarrow> worker" where
  "pgauditlogtofile_close_file s =
     (case file_handler s of
        Some fh \<Rightarrow> s\<lparr>file_handler := None, io_trace := io_trace s @ [Fclose fh]\<rparr>
      | None \<Rightarrow> s)"

definition pgauditlogtofile_is_open_file :: "worker \<Rightarrow> bool" where
  "pgauditlogtofile_is_open_file s = (if file_handler s \<noteq> None then True else False)"

text \<open>The two \<^verbatim>\<open>umask\<close> calls around \<^verbatim>\<open>fopen\<close> only set the mode of a created file
  and are not traced.\<close>

definition pgauditlogtofile_open_file :: "host \<Rightarrow> guc \<Rightarrow> worker \<Rightarrow> bool \<times> worker" where
  "pgauditlogtofile_open_file h g s =
     (let s1 = s\<lparr>io_trace := io_trace s @ [Mkdir (guc_pgaudit_log_directory g)]\<rparr>
      in if fopen_succeeds h (filename s1) then
           (let fh = FILE (filename s1)
            in (True, s1\<lparr>file_handler := Some fh,
                         filename_in_use := filename s1,
                         io_trace := io_trace s1 @ [Fopen (filename s1) True, Setvbuf fh]\<rparr>))
         else
           (False, s1\<lparr>file_handler := None,
                       io_trace := io_trace s1 @ [Fopen (filename s1) False, WarnOpen (filename s1)]\<rparr>))"

subsection \<open>The rotation decision (lines 365-388)\<close>

definition pgauditlogtofile_needs_rotate_file ::
    "host \<Rightarrow> guc \<Rightarrow> worker \<Rightarrow> fault + (bool \<times> worker)" where
  "pgauditlogtofile_needs_rotate_file h g s =
     (case pgaudit_log_shm s of
        None \<Rightarrow> Inl NullDereference
      | Some force_rotation \<Rightarrow>
          if force_rotation then Inr (True, s\<lparr>pgaudit_log_shm := Some False\<rparr>)
          else if time_of_check h \<ge> next_rotation_time s then
            and_then (pgauditlogtofile_calculate_next_rotation_time h g s) (\<lambda>s1. Inr (True, s1))
          else if filename_in_use s \<noteq> filename s then Inr (True, s)
          else Inr (False, s))"

subsection \<open>Interception (lines 293-301, 346-360)\<close>

definition pgauditlogtofile_is_enabled :: "guc \<Rightarrow> worker \<Rightarrow> bool" where
  "pgauditlogtofile_is_enabled g s =
     (case pgaudit_log_shm s of
        None \<Rightarrow> False
      | Some _ \<Rightarrow>
          (case guc_pgaudit_log_directory g of
             None \<Rightarrow> False
           | Some directory \<Rightarrow>
               (case guc_pgaudit_log_filename g of
                  None \<Rightarrow> False
                | Some pattern \<Rightarrow>
                    if length directory = 0 \<or> length pattern = 0 then False else True)))"

text \<open>One \<^verbatim>\<open>for\<close> loop of \<^verbatim>\<open>pgauditlogtofile_is_prefixed\<close> over the rest of a table: it
  stops as soon as \<^verbatim>\<open>found\<close> is set.\<close>

fun prefix_loop :: "bool \<Rightarrow> string \<Rightarrow> (string \<times> nat) list \<Rightarrow> bool" where
  "prefix_loop found msg [] = found"
| "prefix_loop found msg ((p, n) # rest) =
     (if found then found else prefix_loop (pg_strncasecmp msg p n = 0) msg rest)"

definition pgauditlogtofile_is_prefixed :: "guc \<Rightarrow> string \<Rightarrow> bool" where
  "pgauditlogtofile_is_prefixed g msg =
     (let found = False;
          found = (if guc_pgaudit_log_connections g
                   then prefix_loop found msg
                          (zip pgAuditLogToFileConnPrefixes pgAuditLogToFileConnPrefixesLen)
                   else found);
          found = (if guc_pgaudit_log_disconnections g
                   then prefix_loop found msg
                          (zip pgAuditLogToFileDisconnPrefixes pgAuditLogToFileDisconnPrefixesLen)
                   else found)
      in found)"

subsection \<open>The record formatter (lines 504-660)\<close>

text \<open>
  \<open>next_log_line\<close> is the update of the statics at lines 518-525. The buffer is built
  by the appends of the C function, in their order. The function reads
  \<^verbatim>\<open>edata->message + exclude_nchars\<close>: a \<^verbatim>\<open>NULL\<close> message, or an offset beyond its
  end, is a fault.
\<close>

definition next_log_line :: "host \<Rightarrow> worker \<Rightarrow> worker" where
  "next_log_line h s =
     (let s1 = (if log_my_pid s \<noteq> MyProcPid h
                then s\<lparr>log_line_number := 0, log_my_pid := MyProcPid h,
                       formatted_start_time := start_time_text h\<rparr>
                else s)
      in s1\<lparr>log_line_number := log_line_number s1 + 1\<rparr>)"

definition pgauditlogtofile_create_audit_line ::
    "host \<Rightarrow> worker \<Rightarrow> ErrorData \<Rightarrow> int \<Rightarrow> fault + (string \<times> worker)" where
  "pgauditlogtofile_create_audit_line h s edata exclude_nchars =
     (let s2 = next_log_line h s;
          print_stmt = (debug_query_string h \<noteq> None \<and> \<not> hide_stmt edata)
      in case message edata of
           None \<Rightarrow> Inl NullDereference
         | Some msg \<Rightarrow>
             if exclude_nchars < 0 \<or> int (length msg) < exclude_nchars then Inl OutOfBoundsRead
             else Inr
              (log_time_text h @ '','' @
               (case MyProcPort h of
                  Some port \<Rightarrow> append_if_set (user_name port)
                | None \<Rightarrow> []) @ '','' @
               (case MyProcPort h of
                  Some port \<Rightarrow> append_if_set (database_name port)
                | None \<Rightarrow> []) @ '','' @
               fmt_d (log_my_pid s2) @ '','' @
               (case MyProcPort h of
                  Some port \<Rightarrow>
                    (case remote_host port of
                       Some rhost \<Rightarrow>
                         rhost @
                         (case remote_port port of
                            Some rport \<Rightarrow> if rport \<noteq> [] then '':'' @ rport else []
                          | None \<Rightarrow> [])
                     | None \<Rightarrow> [])
                | None \<Rightarrow> []) @ '','' @
               (fmt_lx (MyStartTime h) @ ''.'' @ fmt_x (log_my_pid s2)) @ '','' @
               fmt_d (log_line_number s2) @ '','' @
               (if MyProcPort h \<noteq> None then ps_display h else []) @ '','' @
               formatted_start_time s2 @ '','' @
               (case MyProc h of
                  Some proc \<Rightarrow>
                    if backendId proc \<noteq> InvalidBackendId
                    then fmt_d (backendId proc) @ ''/'' @ fmt_u (lxid proc) else []
                | None \<Rightarrow> []) @ '','' @
               fmt_u (top_transaction_id h) @ '','' @
               unpack_sql_state h (sqlerrcode edata) @ '','' @
               drop (nat exclude_nchars) msg @ '','' @
               (case detail_log edata of
                  Some d \<Rightarrow> d
                | None \<Rightarrow> append_if_set (detail edata)) @ '','' @
               append_if_set (hint edata) @ '','' @
               append_if_set (internalquery edata) @ '','' @
               (if internalpos edata > 0 \<and> internalquery edata \<noteq> None
                then fmt_d (internalpos edata) else []) @ '','' @
               append_if_set (err_context edata) @ '','' @
               (if print_stmt then append_if_set (debug_query_string h) else []) @ '','' @
               (if print_stmt \<and> cursorpos edata > 0 then fmt_d (cursorpos edata) else []) @ '','' @
               (if Log_error_verbosity h \<ge> PGERROR_VERBOSE then
                  (case err_filename edata of
                     Some fname \<Rightarrow>
                       (case funcname edata of
                          Some func \<Rightarrow> func @ '', '' @ fname @ '':'' @ fmt_d (lineno edata)
                        | None \<Rightarrow> fname @ '':'' @ fmt_d (lineno edata))
                   | None \<Rightarrow> [])
                else []) @ '','' @
               append_if_set (application_name h) @
               [CHR 0x0A],
               s2))"

subsection \<open>Writing a record (lines 476-499, 306-321)\<close>

definition pgauditlogtofile_write_audit ::
    "host \<Rightarrow> worker \<Rightarrow> ErrorData \<Rightarrow> int \<Rightarrow> fault + (bool \<times> worker)" where
  "pgauditlogtofile_write_audit h s edata exclude_nchars =
     and_then (pgauditlogtofile_create_audit_line h s edata exclude_nchars)
       (\<lambda>(buf, s1).
          case file_handler s1 of
            None \<Rightarrow> Inl NullDereference
          | Some fh \<Rightarrow>
              (let rc = fwrite_count h buf;
                   s2 = s1\<lparr>io_trace := io_trace s1 @ [Fseek fh, Fwrite fh (take rc buf), Fflush fh]\<rparr>;
                   s3 = (if rc \<noteq> length buf
                         then s2\<lparr>io_trace := io_trace s2 @ [WarnWrite (filename s2)]\<rparr>
                         else s2)
               in Inr (rc = length buf, s3)))"

definition pgauditlogtofile_record_audit ::
    "host \<Rightarrow> guc \<Rightarrow> worker \<Rightarrow> ErrorData \<Rightarrow> int \<Rightarrow> fault + (bool \<times> worker)" where
  "pgauditlogtofile_record_audit h g s edata exclude_nchars =
     and_then (pgauditlogtofile_needs_rotate_file h g s)
       (\<lambda>(rotate, s1).
          and_then (if rotate
                    then and_then (pgauditlogtofile_calculate_filename h g s1)
                           (\<lambda>s2. Inr (pgauditlogtofile_close_file s2))
                    else Inr s1)
            (\<lambda>s3.
               if \<not> pgauditlogtofile_is_open_file s3 then
                 (let (opened, s4) = pgauditlogtofile_open_file h g s3
                  in if \<not> opened then Inr (False, s4)
                     else pgauditlogtofile_write_audit h s4 edata exclude_nchars)
               else pgauditlogtofile_write_audit h s3 edata exclude_nchars))"

subsection \<open>The hook (lines 264-288)\<close>

text \<open>The first \<^verbatim>\<open>if\<close>/\<^verbatim>\<open>else if\<close> of the hook: \<^verbatim>\<open>exclude_nchars\<close> and the event
  as it leaves that statement.\<close>

definition intercept :: "guc \<Rightarrow> string \<Rightarrow> ErrorData \<Rightarrow> int \<times> ErrorData" where
  "intercept g msg edata =
     (if pg_strncasecmp msg PGAUDIT_PREFIX_LINE PGAUDIT_PREFIX_LINE_LENGTH = 0
      then (int PGAUDIT_PREFIX_LINE_LENGTH, edata\<lparr>output_to_server := False\<rparr>)
      else if pgauditlogtofile_is_prefixed g msg
      then (0, edata\<lparr>output_to_server := False\<rparr>)
      else (- 1, edata))"

text \<open>\<^verbatim>\<open>if (prev_emit_log_hook) prev_emit_log_hook(edata)\<close>.\<close>

definition call_prev_hook :: "host \<Rightarrow> ErrorData \<Rightarrow> ErrorData" where
  "call_prev_hook h edata =
     (case prev_emit_log_hook h of None \<Rightarrow> edata | Some hook \<Rightarrow> hook edata)"

definition pgauditlogtofile_emit_log ::
    "host \<Rightarrow> guc \<Rightarrow> worker \<Rightarrow> ErrorData \<Rightarrow> fault + (ErrorData \<times> worker)" where
  "pgauditlogtofile_emit_log h g s edata =
     (if pgauditlogtofile_is_enabled g s then
        (case message edata of
           None \<Rightarrow> Inl NullDereference
         | Some msg \<Rightarrow>
             (let (exclude_nchars, edata1) = intercept g msg edata
              in if exclude_nchars \<ge> 0 then
                   and_then (pgauditlogtofile_record_audit h g s edata1 exclude_nchars)
                     (\<lambda>(recorded, s1).
                        Inr (call_prev_hook h
                               (if \<not> recorded then edata1\<lparr>output_to_server := True\<rparr>
                                else edata1),
                             s1))
                 else Inr (call_prev_hook h edata1, s)))
      else Inr (call_prev_hook h edata, s))"

subsection \<open>Fields of a line\<close>

text \<open>
  The values that the formatter puts between its own delimiters, in order: \<open>s\<close> is the
  state after \<open>next_log_line\<close> and \<open>text\<close> the message behind the excluded prefix.
\<close>

definition audit_fields :: "host \<Rightarrow> worker \<Rightarrow> ErrorData \<Rightarrow> string \<Rightarrow> string list" where
  "audit_fields h s edata text =
     [log_time_text h,
      (case MyProcPort h of Some port \<Rightarrow> append_if_set (user_name port) | None \<Rightarrow> []),
      (case MyProcPort h of Some port \<Rightarrow> append_if_set (database_name port) | None \<Rightarrow> []),
      fmt_d (log_my_pid s),
      (case MyProcPort h of
         Some port \<Rightarrow>
           (case remote_host port of
              Some rhost \<Rightarrow>
                rhost @
                (case remote_port port of
                   Some rport \<Rightarrow> if rport \<noteq> [] then '':'' @ rport else []
                 | None \<Rightarrow> [])
            | None \<Rightarrow> [])
       | None \<Rightarrow> []),
      fmt_lx (MyStartTime h) @ ''.'' @ fmt_x (log_my_pid s),
      fmt_d (log_line_number s),
      (if MyProcPort h \<noteq> None then ps_display h else []),
      formatted_start_time s,
      (case MyProc h of
         Some proc \<Rightarrow>
           if backendId proc \<noteq> InvalidBackendId
           then fmt_d (backendId proc) @ ''/'' @ fmt_u (lxid proc) else []
       | None \<Rightarrow> []),
      fmt_u (top_transaction_id h),
      unpack_sql_state h (sqlerrcode edata),
      text,
      (case detail_log edata of Some d \<Rightarrow> d | None \<Rightarrow> append_if_set (detail edata)),
      append_if_set (hint edata),
      append_if_set (internalquery edata),
      (if internalpos edata > 0 \<and> internalquery edata \<noteq> None
       then fmt_d (internalpos edata) else []),
      append_if_set (err_context edata),
      (if debug_query_string h \<noteq> None \<and> \<not> hide_stmt edata
       then append_if_set (debug_query_string h) else []),
      (if (debug_query_string h \<noteq> None \<and> \<not> hide_stmt edata) \<and> cursorpos edata > 0
       then fmt_d (cursorpos edata) else []),
      (if Log_error_verbosity h \<ge> PGERROR_VERBOSE then
         (case err_filename edata of
            Some fname \<Rightarrow>
              (case funcname edata of
                 Some func \<Rightarrow> func @ '', '' @ fname @ '':'' @ fmt_d (lineno edata)
               | None \<Rightarrow> fname @ '':'' @ fmt_d (lineno edata))
          | None \<Rightarrow> [])
       else []),
      append_if_set (application_name h)]"

text \<open>Joining fields with a delimiter, and splitting a text at every delimiter.\<close>

fun join_with :: "char \<Rightarrow> string list \<Rightarrow> string" where
  "join_with c [] = []"
| "join_with c [f] = f"
| "join_with c (f # g # fs) = f @ c # join_with c (g # fs)"

fun split_on :: "char \<Rightarrow> string \<Rightarrow> string list" where
  "split_on c [] = [[]]"
| "split_on c (x # xs) =
     (if x = c then [] # split_on c xs
      else (case split_on c xs of
              [] \<Rightarrow> [[x]]
            | f # fs \<Rightarrow> (x # f) # fs))"

text \<open>The number of fields a reader finds in what the formatter returned.\<close>

definition resplit_count :: "fault + (string \<times> worker) \<Rightarrow> nat option" where
  "resplit_count r =
     (case r of
        Inl f \<Rightarrow> None
      | Inr (line, s) \<Rightarrow> Some (length (split_on CHR '','' (butlast line))))"

subsection \<open>The file-session invariant\<close>

text \<open>An open stream was opened on the path recorded in \<open>filename_in_use\<close>.\<close>

definition session_inv :: "worker \<Rightarrow> bool" where
  "session_inv s =
     (case file_handler s of
        None \<Rightarrow> True
      | Some fh \<Rightarrow> filename_in_use s = stream_path fh)"

subsection \<open>The shared flag under interleaving (lines 132-142, 236-258, 365-372)\<close>

text \<open>
  The flag lives in shared memory and is touched by many processes at once. Each
  process runs \<^verbatim>\<open>pgauditlogtofile_request_rotation\<close> (lines 137-141) or the first
  statement of \<^verbatim>\<open>pgauditlogtofile_needs_rotate_file\<close> (lines 367-372) one shared-memory
  access at a time, and the accesses of different processes interleave in any order. A
  program counter says where a process stands:
  \<^item> \<open>Request_Test\<close>: before \<^verbatim>\<open>if (!pgaudit_log_shm->force_rotation)\<close>, line 137;
  \<^item> \<open>Request_Acquire\<close>, \<open>Request_Set\<close>, \<open>Request_Release\<close>: before lines 138, 139, 140;
  \<^item> \<open>Check_Test\<close>: before \<^verbatim>\<open>if (pgaudit_log_shm->force_rotation)\<close>, line 367;
  \<^item> \<open>Check_Acquire\<close>, \<open>Check_Clear\<close>, \<open>Check_Release\<close>: before lines 368, 369, 370.
  A process that finds the flag unset in \<open>Check_Test\<close> goes on to the tests of the clock
  and of the filename, which do not touch the shared block; here it is back at \<open>Idle\<close>.
\<close>

datatype pc =
    Idle
  | Request_Test
  | Request_Acquire
  | Request_Set
  | Request_Release
  | Check_Test
  | Check_Acquire
  | Check_Clear
  | Check_Release

text \<open>
  \<open>Startup\<close> is the start-up hook (lines 245-253). \<open>Call_request w c\<close> is the call of
  \<^verbatim>\<open>pgauditlogtofile_request_rotation\<close> that an assign hook of process \<open>w\<close> makes for the
  configuration change \<open>c\<close>, \<open>Call_check w\<close> a write attempt of process \<open>w\<close>, and \<open>Step w\<close>
  the next access of process \<open>w\<close>.
\<close>

datatype action = Startup | Call_request nat nat | Call_check nat | Step nat

text \<open>
  \<open>block_found\<close> is what \<^verbatim>\<open>ShmemInitStruct\<close> reports, \<open>shm_lock\<close> the holder of the
  exclusive \<^verbatim>\<open>LWLock\<close> of the block, \<open>shm_force_rotation\<close> the flag. The other fields
  only record what happened and are read by no step: \<open>change_of w\<close> is the configuration
  change for which process \<open>w\<close> runs its request, \<open>set_for\<close> the change of the latest
  assignment at line 139, \<open>seen_true\<close> the processes whose test at line 367 found the flag
  set (each with \<open>set_for\<close> at that moment), \<open>flag_sets\<close> the number of assignments at line
  139, and \<open>rotations\<close> the processes that returned true at line 371.
\<close>

record system =
  block_found :: bool
  shm_lock :: "nat option"
  shm_force_rotation :: bool
  pcs :: "nat \<Rightarrow> pc"
  change_of :: "nat \<Rightarrow> nat"
  set_for :: nat
  seen_true :: "(nat \<times> nat) list"
  flag_sets :: nat
  rotations :: "nat list"

definition goto :: "nat \<Rightarrow> pc \<Rightarrow> system \<Rightarrow> system" where
  "goto w l \<sigma> = \<sigma>\<lparr>pcs := (pcs \<sigma>)(w := l)\<rparr>"

text \<open>
  One access. The start-up hook that finds no block creates it: the lock is new and the
  flag is assigned false (lines 247-249, under \<^verbatim>\<open>AddinShmemInitLock\<close>, not under the lock
  of the block); when the block exists it writes nothing. Without a block a process
  neither reaches line 137 (line 134) nor the rotation check (line 294).
  \<^verbatim>\<open>LWLockAcquire\<close> on a held lock waits: the step is not enabled.
\<close>

fun step :: "action \<Rightarrow> system \<Rightarrow> system option" where
  "step Startup \<sigma> =
     Some (if \<not> block_found \<sigma>
           then \<sigma>\<lparr>block_found := True, shm_lock := None, shm_force_rotation := False\<rparr>
           else \<sigma>)"
| "step (Call_request w c) \<sigma> =
     (if pcs \<sigma> w = Idle
      then Some (if block_found \<sigma>
                 then goto w Request_Test (\<sigma>\<lparr>change_of := (change_of \<sigma>)(w := c)\<rparr>)
                 else \<sigma>)
      else None)"
| "step (Call_check w) \<sigma> =
     (if pcs \<sigma> w = Idle
      then Some (if block_found \<sigma> then goto w Check_Test \<sigma> else \<sigma>)
      else None)"
| "step (Step w) \<sigma> =
     (case pcs \<sigma> w of
        Idle \<Rightarrow> None
      | Request_Test \<Rightarrow>
          Some (if \<not> shm_force_rotation \<sigma> then goto w Request_Acquire \<sigma> else goto w Idle \<sigma>)
      | Request_Acquire \<Rightarrow>
          (if shm_lock \<sigma> = None then Some (goto w Request_Set (\<sigma>\<lparr>shm_lock := Some w\<rparr>)) else None)
      | Request_Set \<Rightarrow>
          Some (goto w Request_Release
                  (\<sigma>\<lparr>shm_force_rotation := True, set_for := change_of \<sigma> w,
                     flag_sets := flag_sets \<sigma> + 1\<rparr>))
      | Request_Release \<Rightarrow> Some (goto w Idle (\<sigma>\<lparr>shm_lock := None\<rparr>))
      | Check_Test \<Rightarrow>
          Some (if shm_force_rotation \<sigma>
                then goto w Check_Acquire (\<sigma>\<lparr>seen_true := seen_true \<sigma> @ [(w, set_for \<sigma>)]\<rparr>)
                else goto w Idle \<sigma>)
      | Check_Acquire \<Rightarrow>
          (if shm_lock \<sigma> = None then Some (goto w Check_Clear (\<sigma>\<lparr>shm_lock := Some w\<rparr>)) else None)
      | Check_Clear \<Rightarrow> Some (goto w Check_Release (\<sigma>\<lparr>shm_force_rotation := False\<rparr>))
      | Check_Release \<Rightarrow>
          Some (goto w Idle (\<sigma>\<lparr>shm_lock := None, rotations := rotations \<sigma> @ [w]\<rparr>)))"

fun run :: "action list \<Rightarrow> system \<Rightarrow> system option" where
  "run [] \<sigma> = Some \<sigma>"
| "run (a # as) \<sigma> = (case step a \<sigma> of None \<Rightarrow> None | Some \<sigma>' \<Rightarrow> run as \<sigma>')"

definition initial :: system where
  "initial = \<lparr>block_found = False, shm_lock = None, shm_force_rotation = False,
              pcs = (\<lambda>w. Idle), change_of = (\<lambda>w. 0), set_for = 0,
              seen_true = [], flag_sets = 0, rotations = []\<rparr>"

text \<open>The value that an access assigns to the flag, if it assigns one.\<close>

fun flag_written :: "action \<Rightarrow> system \<Rightarrow> bool option" where
  "flag_written Startup \<sigma> = (if \<not> block_found \<sigma> then Some False else None)"
| "flag_written (Step w) \<sigma> =
     (if pcs \<sigma> w = Request_Set then Some True
      else if pcs \<sigma> w = Check_Clear then Some False
      else None)"
| "flag_written (Call_request w c) \<sigma> = None"
| "flag_written (Call_check w) \<sigma> = None"

text \<open>How often a process has found the flag set.\<close>

definition seen_by :: "nat \<Rightarrow> system \<Rightarrow> nat" where
  "seen_by w \<sigma> = length (filter (\<lambda>(v, c). v = w) (seen_true \<sigma>))"

text \<open>
  The places between \<^verbatim>\<open>LWLockAcquire\<close> and \<^verbatim>\<open>LWLockRelease\<close>, and those where a process
  has found the flag set and not yet cleared it. \<open>lock_inv\<close>: the lock is held by exactly
  the process that stands between acquire and release, and without a block every process
  is idle. \<open>seen_inv\<close>: no process has found the flag set more often than it was
  assigned true; a process that is not about to clear it, while the flag is set, has
  found it set less often than that; and the flag is unset while a process stands
  before its release.
\<close>

definition in_critical :: "pc \<Rightarrow> bool" where
  "in_critical l = (l = Request_Set \<or> l = Request_Release \<or> l = Check_Clear \<or> l = Check_Release)"

definition pending :: "pc \<Rightarrow> bool" where
  "pending l = (l = Check_Acquire \<or> l = Check_Clear)"

definition lock_inv :: "system \<Rightarrow> bool" where
  "lock_inv \<sigma> =
     ((\<forall>w. shm_lock \<sigma> = Some w \<longleftrightarrow> in_critical (pcs \<sigma> w))
      \<and> (block_found \<sigma> \<or> (\<forall>w. pcs \<sigma> w = Idle)))"

definition seen_inv :: "system \<Rightarrow> bool" where
  "seen_inv \<sigma> =
     ((\<forall>w. seen_by w \<sigma> \<le> flag_sets \<sigma>)
      \<and> (\<forall>w. pending (pcs \<sigma> w) \<or> \<not> shm_force_rotation \<sigma> \<or> seen_by w \<sigma> < flag_sets \<sigma>)
      \<and> (\<forall>w. pcs \<sigma> w \<noteq> Check_Release \<or> \<not> shm_force_rotation \<sigma>))"

text \<open>What is looked at in the outcome of a run: the number of assignments at line 139, the
  observations, the lock, where the given processes stand, and who has rotated.\<close>

definition view ::
    "nat list \<Rightarrow> system option \<Rightarrow> (nat \<times> (nat \<times> nat) list \<times> nat option \<times> pc list \<times> nat list) option" where
  "view ws r =
     (case r of
        None \<Rightarrow> None
      | Some \<sigma> \<Rightarrow> Some (flag_sets \<sigma>, seen_true \<sigma>, shm_lock \<sigma>, map (pcs \<sigma>) ws, rotations \<sigma>))"

text \<open>
  Three runs. In \<open>race_schedule\<close> the block is created, process 0 requests a rotation for
  configuration change 7 and finishes, and then processes 1 and 2 both start a write
  attempt and both make the test of line 367; \<open>race_finish\<close> lets both go on to the end.
  In \<open>repeat_schedule\<close> process 0 requests a rotation for change 7, process 1 consumes
  it, process 2 requests a rotation for the same change 7, and process 1 makes a second
  write attempt.
\<close>

definition race_schedule :: "action list" where
  "race_schedule =
     [Startup, Call_request 0 7, Step 0, Step 0, Step 0, Step 0,
      Call_check 1, Call_check 2, Step 1, Step 2]"

definition race_finish :: "action list" where
  "race_finish = [Step 1, Step 1, Step 1, Step 2, Step 2, Step 2]"

definition repeat_schedule :: "action list" where
  "repeat_schedule =
     [Startup, Call_request 0 7, Step 0, Step 0, Step 0, Step 0,
      Call_check 1, Step 1, Step 1, Step 1, Step 1,
      Call_request 2 7, Step 2, Step 2, Step 2, Step 2,
      Call_check 1, Step 1]"


subsection \<open>A concrete configuration, host, process state and event\<close>

text \<open>
  Used to run the functions on an input. The clock reads 1699953300 with an offset of one
  hour: 10:15:00 local time on 14 November 2023. The rotation interval is 60 minutes, the
  cached boundary 1699956000 is 11:00 local time, and no file is open yet.
\<close>

definition demo_guc :: guc where
  "demo_guc =
     \<lparr>guc_pgaudit_log_directory = Some ''log'',
      guc_pgaudit_log_filename = Some ''audit-'',
      guc_pgaudit_log_rotation_age = 60,
      guc_pgaudit_log_connections = True,
      guc_pgaudit_log_disconnections = False\<rparr>"

definition demo_port :: Port where
  "demo_port =
     \<lparr>user_name = Some ''alice'', database_name = Some ''shop'',
      remote_host = Some ''10.0.0.7'', remote_port = Some ''5432''\<rparr>"

definition demo_host :: host where
  "demo_host =
     \<lparr>time_of_check = 1699953300,
      time_of_calculation = 1699953300,
      tm_gmtoff = 3600,
      pg_strftime = (\<lambda>n pat t. pat @ fmt_d t),
      fopen_succeeds = (\<lambda>p. True),
      fwrite_count = length,
      prev_emit_log_hook = None,
      MyProcPort = Some demo_port,
      MyProcPid = 4242,
      MyStartTime = 1699950000,
      ps_display = ''SELECT'',
      MyProc = Some \<lparr>backendId = 3, lxid = 7\<rparr>,
      top_transaction_id = 0,
      unpack_sql_state = (\<lambda>code. ''00000''),
      debug_query_string = Some ''select 1'',
      Log_error_verbosity = 1,
      application_name = Some ''psql'',
      log_time_text = ''2023-11-14 10:15:00.000 CET'',
      start_time_text = ''2023-11-14 09:20:00 CET''\<rparr>"

definition demo_worker :: worker where
  "demo_worker =
     \<lparr>pgaudit_log_shm = Some False,
      file_handler = None,
      filename_in_use = [],
      filename = ''log/audit-1699952400'',
      next_rotation_time = 1699956000,
      log_line_number = 0,
      log_my_pid = 0,
      formatted_start_time = [],
      io_trace = []\<rparr>"

definition demo_event :: ErrorData where
  "demo_event =
     \<lparr>output_to_server = True,
      hide_stmt = False,
      sqlerrcode = 0,
      message = Some ''AUDIT: foo,bar'',
      detail = None,
      detail_log = None,
      hint = None,
      err_context = None,
      internalquery = None,
      internalpos = 0,
      cursorpos = 0,
      funcname = None,
      err_filename = None,
      lineno = 0\<rparr>"

text \<open>
  The same process after it has opened its file under \<open>demo_guc\<close>; a configuration whose
  directory, and one whose filename pattern, has changed since; a host whose clock reads
  14:30 local time of the same day; and a configuration with an interval of one day.
\<close>

definition open_worker :: worker where
  "open_worker = snd (pgauditlogtofile_open_file demo_host demo_guc demo_worker)"

definition moved_guc :: guc where
  "moved_guc = demo_guc\<lparr>guc_pgaudit_log_directory := Some ''log2''\<rparr>"

definition renamed_guc :: guc where
  "renamed_guc = demo_guc\<lparr>guc_pgaudit_log_filename := Some ''pgaudit-''\<rparr>"

definition late_host :: host where
  "late_host = demo_host\<lparr>time_of_check := 1699968600, time_of_calculation := 1699968600\<rparr>"

definition day_guc :: guc where
  "day_guc = demo_guc\<lparr>guc_pgaudit_log_rotation_age := 1440\<rparr>"

text \<open>The \<^verbatim>\<open>fwrite\<close> calls of a trace.\<close>

definition writes_of :: "io_event list \<Rightarrow> io_event list" where
  "writes_of tr = filter (\<lambda>e. case e of Fwrite f b \<Rightarrow> True | _ \<Rightarrow> False) tr"

section \<open>Properties\<close>

subsection \<open>C remainder\<close>

lemma c_rem_less: "0 < b \<Longrightarrow> c_rem a b < b"
proof -
  assume b: "0 < b"
  have "\<bar>a\<bar> mod \<bar>b\<bar> < b" using b by simp
  moreover have "0 \<le> \<bar>a\<bar> mod \<bar>b\<bar>" using b by simp
  ultimately show ?thesis
    unfolding c_rem_def by (cases "a < 0"; cases "a = 0"; simp)
qed

lemma c_rem_dvd: "0 < b \<Longrightarrow> b dvd (a - c_rem a b)"
proof -
  assume b: "0 < b"
  show ?thesis
  proof (cases "0 \<le> a")
    case True
    then have "a - c_rem a b = a - a mod b"
      using b unfolding c_rem_def by (cases "a = 0"; simp)
    then show ?thesis by (simp add: dvd_minus_mod)
  next
    case False
    then have eq: "a - c_rem a b = - ((- a) - (- a) mod b)"
      using b unfolding c_rem_def by simp
    have "b dvd ((- a) - (- a) mod b)" by (rule dvd_minus_mod)
    then have "b dvd - ((- a) - (- a) mod b)" by (simp only: dvd_minus_iff)
    then show ?thesis by (simp only: eq)
  qed
qed

lemma c_rem_nonneg: "0 \<le> a \<Longrightarrow> 0 < b \<Longrightarrow> c_rem a b = a mod b"
  unfolding c_rem_def by (cases "a = 0"; simp)

subsection \<open>The rotation clock\<close>

lemma calculate_filename_value:
  assumes "guc_pgaudit_log_directory g = Some d" and "guc_pgaudit_log_filename g = Some p"
  shows "pgauditlogtofile_calculate_filename h g s =
      Inr (s\<lparr>filename := take (MAXPGPATH - 1) (d @ ''/'') @
             pg_strftime h (MAXPGPATH - length (take (MAXPGPATH - 1) (d @ ''/''))) p
               (next_rotation_time s - guc_pgaudit_log_rotation_age g * 60)\<rparr>)"
  using assms by (simp add: pgauditlogtofile_calculate_filename_def Let_def SECS_PER_MINUTE_def)

lemma next_rotation_value:
  assumes "0 < guc_pgaudit_log_rotation_age g"
  shows "pgauditlogtofile_calculate_next_rotation_time h g s =
      Inr (s\<lparr>next_rotation_time :=
          time_of_calculation h + tm_gmtoff h
          - c_rem (time_of_calculation h + tm_gmtoff h) (guc_pgaudit_log_rotation_age g * 60)
          + guc_pgaudit_log_rotation_age g * 60 - tm_gmtoff h\<rparr>)"
  using assms by (simp add: pgauditlogtofile_calculate_next_rotation_time_def Let_def SECS_PER_MINUTE_def)

lemma hour_floor:
  fixes x :: int
  assumes "x mod 86400 div 60 = 615"
  shows "x - x mod 3600 = x - x mod 86400 + 36000"
proof -
  define y where "y = x mod 86400"
  have "y = y div 60 * 60 + y mod 60" by simp
  moreover have "0 \<le> y mod 60" and "y mod 60 < 60" by simp_all
  ultimately have y: "36900 \<le> y \<and> y < 36960" using assms unfolding y_def by linarith
  have "x mod 3600 = y mod 3600" unfolding y_def by (simp add: mod_mod_cancel)
  also have "\<dots> = ((y - 36000) + 10 * 3600) mod 3600" by simp
  also have "\<dots> = (y - 36000) mod 3600" by (rule mod_mult_self1)
  also have "\<dots> = y - 36000" using y by (simp add: mod_pos_pos_trivial)
  finally show ?thesis by (simp add: y_def)
qed

lemma window_props:
  fixes x r off now :: int
  assumes "0 < r" and "x = now + off"
  shows "(x - x mod r + r - off) - r \<le> now \<and> now < x - x mod r + r - off
         \<and> r dvd ((x - x mod r + r - off) - r + off)"
proof -
  have a: "0 \<le> x mod r" and b: "x mod r < r" using assms(1) by simp_all
  have c: "r dvd (x - x mod r)" by (rule dvd_minus_mod)
  have d: "(x - x mod r + r - off) - r + off = x - x mod r" by simp
  show ?thesis unfolding d using a b c assms(2) by simp
qed
text \<open>
  C2. For every clock reading and every positive rotation interval,
  \<^verbatim>\<open>pgauditlogtofile_calculate_next_rotation_time\<close> returns, changes nothing but
  \<open>next_rotation_time\<close>, and the new value is strictly later than the clock reading and,
  shifted into local time by the offset, a multiple of the interval in seconds.
\<close>

theorem rotation_clock_future_aligned:
  assumes "0 < guc_pgaudit_log_rotation_age g"
  shows "\<exists>s'. pgauditlogtofile_calculate_next_rotation_time h g s = Inr s'
            \<and> s' = s\<lparr>next_rotation_time := next_rotation_time s'\<rparr>
            \<and> time_of_calculation h < next_rotation_time s'
            \<and> (guc_pgaudit_log_rotation_age g * 60) dvd (next_rotation_time s' + tm_gmtoff h)"
proof -
  define r where "r = guc_pgaudit_log_rotation_age g * 60"
  define x where "x = time_of_calculation h + tm_gmtoff h"
  define t where "t = x - c_rem x r + r - tm_gmtoff h"
  have r: "0 < r" using assms by (simp add: r_def)
  have lt: "c_rem x r < r" using r by (rule c_rem_less)
  have dv: "r dvd (x - c_rem x r)" using r by (rule c_rem_dvd)
  have eq: "pgauditlogtofile_calculate_next_rotation_time h g s = Inr (s\<lparr>next_rotation_time := t\<rparr>)"
    using r by (simp add: pgauditlogtofile_calculate_next_rotation_time_def Let_def
        SECS_PER_MINUTE_def r_def x_def t_def)
  have gt: "time_of_calculation h < t"
    using lt by (simp add: t_def x_def)
  have "t + tm_gmtoff h = (x - c_rem x r) + r" by (simp add: t_def)
  moreover have "r dvd ((x - c_rem x r) + r)" using dv by (rule dvd_add) simp
  ultimately have al: "r dvd (t + tm_gmtoff h)" by simp
  show ?thesis
    unfolding eq using gt al by (simp add: r_def)
qed

theorem rotation_clock_future_aligned_witness:
  "0 < guc_pgaudit_log_rotation_age demo_guc
   \<and> pgauditlogtofile_calculate_next_rotation_time demo_host demo_guc demo_worker
       = Inr (demo_worker\<lparr>next_rotation_time := 1699956000\<rparr>)
   \<and> (\<exists>s'. pgauditlogtofile_calculate_next_rotation_time demo_host demo_guc demo_worker = Inr s'
            \<and> s' = demo_worker\<lparr>next_rotation_time := next_rotation_time s'\<rparr>
            \<and> time_of_calculation demo_host < next_rotation_time s'
            \<and> (guc_pgaudit_log_rotation_age demo_guc * 60) dvd
                (next_rotation_time s' + tm_gmtoff demo_host))"
proof -
  have age: "0 < guc_pgaudit_log_rotation_age demo_guc" by (simp add: demo_guc_def)
  have run: "pgauditlogtofile_calculate_next_rotation_time demo_host demo_guc demo_worker
       = Inr (demo_worker\<lparr>next_rotation_time := 1699956000\<rparr>)"
    by (simp add: pgauditlogtofile_calculate_next_rotation_time_def demo_host_def demo_guc_def
        SECS_PER_MINUTE_def c_rem_def Let_def)
  show ?thesis
    using age run rotation_clock_future_aligned [OF age, of demo_host demo_worker] by blast
qed

text \<open>
  C3. The registered range of \<^verbatim>\<open>pgaudit.log_rotation_age\<close> accepts 0, and with 0 the
  function reaches \<^verbatim>\<open>now % rotinterval\<close> with a zero divisor, already from the
  start-up hook.
\<close>

theorem zero_interval_reaches_modulo:
  "log_rotation_age_accepted 0
   \<and> pgauditlogtofile_calculate_next_rotation_time h (g\<lparr>guc_pgaudit_log_rotation_age := 0\<rparr>) s
       = Inl DivisionByZero
   \<and> pgauditlogtofile_shmem_startup h (g\<lparr>guc_pgaudit_log_rotation_age := 0\<rparr>) False segment s
       = Inl DivisionByZero"
  by (simp add: log_rotation_age_accepted_def log_rotation_age_min_def log_rotation_age_max_def
      INT_MAX_def SECS_PER_MINUTE_def pgauditlogtofile_calculate_next_rotation_time_def
      pgauditlogtofile_shmem_startup_def and_then_def)

text \<open>
  What holds of the filename. \<^verbatim>\<open>pgauditlogtofile_calculate_filename\<close> renders the pattern
  at \<open>next_rotation_time\<close> minus the interval in seconds, whatever the state. When
  \<open>next_rotation_time\<close> has just been returned by the rotation clock for the same clock
  reading and interval (and the local time is not before 1970), that instant is the
  aligned start of the window that contains the clock reading; with 60 minutes and a
  local time of 10:15 the boundary is 11:00 and the window start 10:00 of the same day.
\<close>

lemma filename_window_start:
  assumes d: "guc_pgaudit_log_directory g = Some d"
      and p: "guc_pgaudit_log_filename g = Some p"
      and age: "0 < guc_pgaudit_log_rotation_age g"
  shows "pgauditlogtofile_calculate_filename h g s =
           Inr (s\<lparr>filename := take (MAXPGPATH - 1) (d @ ''/'') @
                 pg_strftime h (MAXPGPATH - length (take (MAXPGPATH - 1) (d @ ''/''))) p
                   (next_rotation_time s - guc_pgaudit_log_rotation_age g * 60)\<rparr>)
       \<and> (\<exists>s1. pgauditlogtofile_calculate_next_rotation_time h g s = Inr s1
            \<and> (0 \<le> time_of_calculation h + tm_gmtoff h \<longrightarrow>
                 next_rotation_time s1 - guc_pgaudit_log_rotation_age g * 60 \<le> time_of_calculation h
               \<and> time_of_calculation h < next_rotation_time s1
               \<and> (guc_pgaudit_log_rotation_age g * 60) dvd
                   (next_rotation_time s1 - guc_pgaudit_log_rotation_age g * 60 + tm_gmtoff h))
            \<and> (guc_pgaudit_log_rotation_age g = 60
               \<and> 0 \<le> time_of_calculation h + tm_gmtoff h
               \<and> (time_of_calculation h + tm_gmtoff h) mod 86400 div 60 = 615 \<longrightarrow>
                 next_rotation_time s1 + tm_gmtoff h
                   = time_of_calculation h + tm_gmtoff h
                     - (time_of_calculation h + tm_gmtoff h) mod 86400 + 39600
               \<and> next_rotation_time s1 - guc_pgaudit_log_rotation_age g * 60 + tm_gmtoff h
                   = time_of_calculation h + tm_gmtoff h
                     - (time_of_calculation h + tm_gmtoff h) mod 86400 + 36000))"
proof -
  define r where "r = guc_pgaudit_log_rotation_age g * 60"
  define x where "x = time_of_calculation h + tm_gmtoff h"
  define t where "t = x - c_rem x r + r - tm_gmtoff h"
  have r: "0 < r" using age by (simp add: r_def)
  have eq: "pgauditlogtofile_calculate_next_rotation_time h g s = Inr (s\<lparr>next_rotation_time := t\<rparr>)"
    using next_rotation_value [OF age, of h s] by (simp add: r_def x_def t_def)
  have tr: "t = x - x mod r + r - tm_gmtoff h" if "0 \<le> x"
    using c_rem_nonneg [OF that r] by (simp add: t_def)
  have general: "t - r \<le> time_of_calculation h \<and> time_of_calculation h < t
      \<and> r dvd (t - r + tm_gmtoff h)" if nonneg: "0 \<le> x"
    unfolding tr [OF nonneg] using r x_def by (rule window_props)
  have scenario: "t + tm_gmtoff h = x - x mod 86400 + 39600
      \<and> t - r + tm_gmtoff h = x - x mod 86400 + 36000"
    if a60: "guc_pgaudit_log_rotation_age g = 60" and nonneg: "0 \<le> x"
      and clock: "x mod 86400 div 60 = 615"
  proof -
    have r60: "r = 3600" using a60 by (simp add: r_def)
    have "x - x mod 3600 = x - x mod 86400 + 36000" using clock by (rule hour_floor)
    then show ?thesis using tr [OF nonneg] by (simp add: r60)
  qed
  have first: "pgauditlogtofile_calculate_filename h g s =
           Inr (s\<lparr>filename := take (MAXPGPATH - 1) (d @ ''/'') @
                 pg_strftime h (MAXPGPATH - length (take (MAXPGPATH - 1) (d @ ''/''))) p
                   (next_rotation_time s - guc_pgaudit_log_rotation_age g * 60)\<rparr>)"
    using d p by (rule calculate_filename_value)
  have second: "(0 \<le> time_of_calculation h + tm_gmtoff h \<longrightarrow>
                 t - guc_pgaudit_log_rotation_age g * 60 \<le> time_of_calculation h
               \<and> time_of_calculation h < t
               \<and> (guc_pgaudit_log_rotation_age g * 60) dvd
                   (t - guc_pgaudit_log_rotation_age g * 60 + tm_gmtoff h))"
    using general unfolding r_def x_def by blast
  have third: "(guc_pgaudit_log_rotation_age g = 60
               \<and> 0 \<le> time_of_calculation h + tm_gmtoff h
               \<and> (time_of_calculation h + tm_gmtoff h) mod 86400 div 60 = 615 \<longrightarrow>
                 t + tm_gmtoff h
                   = time_of_calculation h + tm_gmtoff h
                     - (time_of_calculation h + tm_gmtoff h) mod 86400 + 39600
               \<and> t - guc_pgaudit_log_rotation_age g * 60 + tm_gmtoff h
                   = time_of_calculation h + tm_gmtoff h
                     - (time_of_calculation h + tm_gmtoff h) mod 86400 + 36000)"
    using scenario unfolding r_def x_def by blast
  have nrt: "next_rotation_time (s\<lparr>next_rotation_time := t\<rparr>) = t" by simp
  show ?thesis
    apply (rule conjI [OF first])
    apply (rule exI [of _ "s\<lparr>next_rotation_time := t\<rparr>"])
    apply (rule conjI [OF eq])
    apply (simp only: nrt)
    apply (rule conjI [OF second third])
    done
qed

subsection \<open>Sequencing and the file session: auxiliary facts\<close>

lemma and_then_Inr [simp]: "and_then (Inr v) k = k v"
  by (simp add: and_then_def)

lemma and_then_Inl [simp]: "and_then (Inl f) k = Inl f"
  by (simp add: and_then_def)

lemma is_enabled_iff:
  "pgauditlogtofile_is_enabled g s \<longleftrightarrow>
     (\<exists>force d p. pgaudit_log_shm s = Some force \<and> guc_pgaudit_log_directory g = Some d
        \<and> guc_pgaudit_log_filename g = Some p \<and> d \<noteq> [] \<and> p \<noteq> [])"
  by (auto simp: pgauditlogtofile_is_enabled_def split: option.splits)

text \<open>
  C9. When the directory or the filename pattern is \<^verbatim>\<open>NULL\<close> or empty, the hook hands
  the event as it came to the previous hook (and returns it unchanged when there is
  none) and leaves the whole state as it was: the force flag is not consumed, the
  rotation time is not recomputed and nothing is added to the I/O trace.
\<close>

theorem disabled_passes_through:
  assumes "guc_pgaudit_log_directory g = None \<or> guc_pgaudit_log_directory g = Some []
         \<or> guc_pgaudit_log_filename g = None \<or> guc_pgaudit_log_filename g = Some []"
  shows "pgauditlogtofile_emit_log h g s edata = Inr (call_prev_hook h edata, s)
       \<and> (prev_emit_log_hook h = None \<longrightarrow>
            pgauditlogtofile_emit_log h g s edata = Inr (edata, s))"
proof -
  have "\<not> pgauditlogtofile_is_enabled g s"
    using assms by (auto simp: is_enabled_iff)
  then show ?thesis
    by (simp add: pgauditlogtofile_emit_log_def call_prev_hook_def)
qed

theorem disabled_passes_through_witness:
  "guc_pgaudit_log_directory (demo_guc\<lparr>guc_pgaudit_log_directory := Some []\<rparr>) = Some []
   \<and> prev_emit_log_hook demo_host = None
   \<and> pgauditlogtofile_emit_log demo_host (demo_guc\<lparr>guc_pgaudit_log_directory := Some []\<rparr>)
        (demo_worker\<lparr>pgaudit_log_shm := Some True\<rparr>) demo_event
       = Inr (demo_event, demo_worker\<lparr>pgaudit_log_shm := Some True\<rparr>)"
proof -
  have d: "guc_pgaudit_log_directory (demo_guc\<lparr>guc_pgaudit_log_directory := Some []\<rparr>) = Some []"
    by simp
  have p: "prev_emit_log_hook demo_host = None" by (simp add: demo_host_def)
  show ?thesis
    using d p disabled_passes_through [of "demo_guc\<lparr>guc_pgaudit_log_directory := Some []\<rparr>"
        demo_host "demo_worker\<lparr>pgaudit_log_shm := Some True\<rparr>" demo_event]
    by blast
qed

lemma needs_rotate_file_cases:
  assumes shm: "pgaudit_log_shm s = Some force" and age: "0 < guc_pgaudit_log_rotation_age g"
  shows "\<exists>rot s1. pgauditlogtofile_needs_rotate_file h g s = Inr (rot, s1)
     \<and> (rot \<longleftrightarrow> force \<or> time_of_check h \<ge> next_rotation_time s \<or> filename_in_use s \<noteq> filename s)
     \<and> (force \<longrightarrow> s1 = s\<lparr>pgaudit_log_shm := Some False\<rparr>)
     \<and> (\<not> force \<and> time_of_check h \<ge> next_rotation_time s \<longrightarrow>
           pgauditlogtofile_calculate_next_rotation_time h g s = Inr s1)
     \<and> (\<not> force \<and> time_of_check h < next_rotation_time s \<longrightarrow> s1 = s)"
proof -
  obtain s' where calc: "pgauditlogtofile_calculate_next_rotation_time h g s = Inr s'"
    using next_rotation_value [OF age] by blast
  show ?thesis
    using shm calc by (simp add: pgauditlogtofile_needs_rotate_file_def)
qed

lemma needs_rotate_file_frame:
  assumes "pgauditlogtofile_needs_rotate_file h g s = Inr (rot, s1)"
  shows "\<exists>b t. s1 = s\<lparr>pgaudit_log_shm := b, next_rotation_time := t\<rparr>"
proof -
  have id: "s = s\<lparr>pgaudit_log_shm := pgaudit_log_shm s, next_rotation_time := next_rotation_time s\<rparr>"
    by simp
  have a: "s\<lparr>pgaudit_log_shm := Some False\<rparr>
      = s\<lparr>pgaudit_log_shm := Some False, next_rotation_time := next_rotation_time s\<rparr>" by simp
  have b: "s\<lparr>next_rotation_time := t\<rparr>
      = s\<lparr>pgaudit_log_shm := pgaudit_log_shm s, next_rotation_time := t\<rparr>" for t by simp
  show ?thesis
    using assms
    apply (simp add: pgauditlogtofile_needs_rotate_file_def
        pgauditlogtofile_calculate_next_rotation_time_def Let_def
        split: option.splits if_splits)
    using id a b by blast+
qed


lemma session_inv_iff:
  "session_inv s \<longleftrightarrow> (\<forall>fh. file_handler s = Some fh \<longrightarrow> filename_in_use s = stream_path fh)"
  by (simp add: session_inv_def split: option.splits)

lemma close_file_closed [simp]: "file_handler (pgauditlogtofile_close_file s) = None"
  by (simp add: pgauditlogtofile_close_file_def split: option.splits)

lemma close_file_keeps [simp]:
  "filename_in_use (pgauditlogtofile_close_file s) = filename_in_use s"
  "filename (pgauditlogtofile_close_file s) = filename s"
  "pgaudit_log_shm (pgauditlogtofile_close_file s) = pgaudit_log_shm s"
  "next_rotation_time (pgauditlogtofile_close_file s) = next_rotation_time s"
  by (simp_all add: pgauditlogtofile_close_file_def split: option.splits)

lemma is_open_file_iff [simp]: "pgauditlogtofile_is_open_file s \<longleftrightarrow> file_handler s \<noteq> None"
  by (simp add: pgauditlogtofile_is_open_file_def)

lemma open_file_success:
  assumes "fopen_succeeds h (filename s)"
  shows "\<exists>s'. pgauditlogtofile_open_file h g s = (True, s')
      \<and> file_handler s' = Some (FILE (filename s)) \<and> filename_in_use s' = filename s
      \<and> filename s' = filename s
      \<and> io_trace s' = io_trace s @ [Mkdir (guc_pgaudit_log_directory g), Fopen (filename s) True,
            Setvbuf (FILE (filename s))]"
  using assms by (simp add: pgauditlogtofile_open_file_def Let_def)

lemma open_file_failure:
  assumes "\<not> fopen_succeeds h (filename s)"
  shows "\<exists>s'. pgauditlogtofile_open_file h g s = (False, s')
      \<and> file_handler s' = None \<and> filename_in_use s' = filename_in_use s
      \<and> filename s' = filename s
      \<and> io_trace s' = io_trace s @ [Mkdir (guc_pgaudit_log_directory g), Fopen (filename s) False,
            WarnOpen (filename s)]"
  using assms by (simp add: pgauditlogtofile_open_file_def Let_def)

lemma open_file_inv: "session_inv (snd (pgauditlogtofile_open_file h g s))"
  by (simp add: pgauditlogtofile_open_file_def session_inv_iff Let_def)

lemma next_log_line_keeps [simp]:
  "file_handler (next_log_line h s) = file_handler s"
  "filename_in_use (next_log_line h s) = filename_in_use s"
  "filename (next_log_line h s) = filename s"
  "io_trace (next_log_line h s) = io_trace s"
  "pgaudit_log_shm (next_log_line h s) = pgaudit_log_shm s"
  "next_rotation_time (next_log_line h s) = next_rotation_time s"
  by (simp_all add: next_log_line_def Let_def)

lemma create_audit_line_state:
  assumes "pgauditlogtofile_create_audit_line h s edata n = Inr (line, s')"
  shows "s' = next_log_line h s"
  using assms
  by (simp add: pgauditlogtofile_create_audit_line_def Let_def split: option.splits if_splits)

lemma write_audit_keeps:
  assumes "pgauditlogtofile_write_audit h s edata n = Inr (ok, s')"
  shows "file_handler s' = file_handler s \<and> filename_in_use s' = filename_in_use s
       \<and> filename s' = filename s \<and> file_handler s \<noteq> None"
proof -
  obtain line s1 where cr: "pgauditlogtofile_create_audit_line h s edata n = Inr (line, s1)"
    using assms by (cases "pgauditlogtofile_create_audit_line h s edata n")
      (auto simp: pgauditlogtofile_write_audit_def)
  have s1: "s1 = next_log_line h s" using cr by (rule create_audit_line_state)
  show ?thesis
    using assms unfolding pgauditlogtofile_write_audit_def cr s1
    by (auto simp: Let_def split: option.splits if_splits)
qed

lemma session_inv_cong:
  assumes "file_handler s' = file_handler s" and "filename_in_use s' = filename_in_use s"
  shows "session_inv s' = session_inv s"
  using assms by (simp add: session_inv_iff)

lemma calculate_filename_frame:
  assumes "pgauditlogtofile_calculate_filename h g s = Inr s'"
  shows "\<exists>name. s' = s\<lparr>filename := name\<rparr>"
  using assms
  by (auto simp: pgauditlogtofile_calculate_filename_def Let_def split: option.splits)

lemma record_audit_inv:
  assumes inv: "session_inv s"
      and run: "pgauditlogtofile_record_audit h g s edata n = Inr (ok, s')"
  shows "session_inv s'"
proof -
  obtain rot s1 where nr: "pgauditlogtofile_needs_rotate_file h g s = Inr (rot, s1)"
    using run by (cases "pgauditlogtofile_needs_rotate_file h g s")
      (auto simp: pgauditlogtofile_record_audit_def)
  obtain b t where s1: "s1 = s\<lparr>pgaudit_log_shm := b, next_rotation_time := t\<rparr>"
    using needs_rotate_file_frame [OF nr] by blast
  have inv1: "session_inv s1" using inv by (simp add: s1 session_inv_iff)
  define s3r where "s3r = (if rot
                    then and_then (pgauditlogtofile_calculate_filename h g s1)
                           (\<lambda>s2. Inr (pgauditlogtofile_close_file s2))
                    else Inr s1)"
  obtain s3 where s3: "s3r = Inr s3"
    using run unfolding pgauditlogtofile_record_audit_def nr s3r_def
    by (cases "if rot
                    then and_then (pgauditlogtofile_calculate_filename h g s1)
                           (\<lambda>s2. Inr (pgauditlogtofile_close_file s2))
                    else Inr s1") auto
  have inv3: "session_inv s3"
  proof (cases rot)
    case True
    then obtain s2 where "pgauditlogtofile_calculate_filename h g s1 = Inr s2"
        and "s3 = pgauditlogtofile_close_file s2"
      using s3 unfolding s3r_def
      by (cases "pgauditlogtofile_calculate_filename h g s1") auto
    then show ?thesis by (simp add: session_inv_iff)
  next
    case False
    then show ?thesis using s3 inv1 by (simp add: s3r_def)
  qed
  have rest: "(if \<not> pgauditlogtofile_is_open_file s3 then
                 (let (opened, s4) = pgauditlogtofile_open_file h g s3
                  in if \<not> opened then Inr (False, s4)
                     else pgauditlogtofile_write_audit h s4 edata n)
               else pgauditlogtofile_write_audit h s3 edata n) = Inr (ok, s')"
    using run s3 unfolding pgauditlogtofile_record_audit_def nr s3r_def by simp
  show ?thesis
  proof (cases "file_handler s3")
    case None
    obtain opened s4 where op: "pgauditlogtofile_open_file h g s3 = (opened, s4)"
      by (cases "pgauditlogtofile_open_file h g s3")
    have inv4: "session_inv s4" using open_file_inv [of h g s3] by (simp add: op)
    show ?thesis
    proof (cases opened)
      case True
      then have "pgauditlogtofile_write_audit h s4 edata n = Inr (ok, s')"
        using rest None op by simp
      from write_audit_keeps [OF this] inv4 show ?thesis
        by (simp add: session_inv_iff)
    next
      case False
      then show ?thesis using rest None op inv4 by simp
    qed
  next
    case (Some fh)
    then have "pgauditlogtofile_write_audit h s3 edata n = Inr (ok, s')"
      using rest by simp
    from write_audit_keeps [OF this] inv3 show ?thesis
      by (simp add: session_inv_iff)
  qed
qed

lemma emit_log_inv:
  assumes inv: "session_inv s"
      and run: "pgauditlogtofile_emit_log h g s edata = Inr (edata', s')"
  shows "session_inv s'"
proof (cases "pgauditlogtofile_is_enabled g s")
  case False
  then show ?thesis using run inv by (simp add: pgauditlogtofile_emit_log_def)
next
  case True
  then obtain msg where msg: "message edata = Some msg"
    using run by (cases "message edata") (auto simp: pgauditlogtofile_emit_log_def)
  obtain n e1 where ic: "intercept g msg edata = (n, e1)" by (cases "intercept g msg edata")
  show ?thesis
  proof (cases "0 \<le> n")
    case False
    then show ?thesis using run inv True msg ic by (simp add: pgauditlogtofile_emit_log_def)
  next
    case n: True
    then obtain ok where "pgauditlogtofile_record_audit h g s e1 n = Inr (ok, s')"
      using run True msg ic
      by (cases "pgauditlogtofile_record_audit h g s e1 n")
        (auto simp: pgauditlogtofile_emit_log_def)
    with inv show ?thesis by (rule record_audit_inv)
  qed
qed

subsection \<open>The rotation decision\<close>

lemma record_audit_reopen:
  assumes nr: "pgauditlogtofile_needs_rotate_file h g s = Inr (True, s1)"
  shows "pgauditlogtofile_record_audit h g s edata n =
           and_then (pgauditlogtofile_calculate_filename h g s1)
             (\<lambda>s2. let (opened, s4) = pgauditlogtofile_open_file h g (pgauditlogtofile_close_file s2)
                    in if \<not> opened then Inr (False, s4)
                       else pgauditlogtofile_write_audit h s4 edata n)"
  unfolding pgauditlogtofile_record_audit_def nr
  by (cases "pgauditlogtofile_calculate_filename h g s1") simp_all

lemma record_audit_reuse:
  assumes nr: "pgauditlogtofile_needs_rotate_file h g s = Inr (False, s1)"
      and "file_handler s1 \<noteq> None"
  shows "pgauditlogtofile_record_audit h g s edata n = pgauditlogtofile_write_audit h s1 edata n"
  unfolding pgauditlogtofile_record_audit_def nr using assms(2) by auto

text \<open>
  What the rotation check does. With the shared block attached and a positive interval,
  \<^verbatim>\<open>pgauditlogtofile_needs_rotate_file\<close> returns, and it answers true exactly when the
  force flag is set, or the clock has reached \<open>next_rotation_time\<close>, or the static
  \<open>filename\<close> differs from \<open>filename_in_use\<close>. The tests are made in that order: a set
  flag is cleared and nothing else changes; otherwise a reached boundary makes the state
  the one returned by the rotation clock; otherwise the state is unchanged. A write
  attempt that rotates recomputes the filename, closes and reopens; one that does not
  rotate and has an open stream goes straight to the write on the unchanged state.
\<close>

lemma rotation_decision_order:
  assumes shm: "pgaudit_log_shm s = Some force"
      and age: "0 < guc_pgaudit_log_rotation_age g"
  shows "\<exists>rot s1. pgauditlogtofile_needs_rotate_file h g s = Inr (rot, s1)
     \<and> (rot \<longleftrightarrow> force \<or> time_of_check h \<ge> next_rotation_time s \<or> filename_in_use s \<noteq> filename s)
     \<and> (force \<longrightarrow> s1 = s\<lparr>pgaudit_log_shm := Some False\<rparr>)
     \<and> (\<not> force \<and> time_of_check h \<ge> next_rotation_time s \<longrightarrow>
           pgauditlogtofile_calculate_next_rotation_time h g s = Inr s1)
     \<and> (\<not> force \<and> time_of_check h < next_rotation_time s \<longrightarrow> s1 = s)
     \<and> (rot \<longrightarrow>
           pgauditlogtofile_record_audit h g s edata n =
             and_then (pgauditlogtofile_calculate_filename h g s1)
               (\<lambda>s2. let (opened, s4) =
                             pgauditlogtofile_open_file h g (pgauditlogtofile_close_file s2)
                      in if \<not> opened then Inr (False, s4)
                         else pgauditlogtofile_write_audit h s4 edata n))
     \<and> (\<not> rot \<and> file_handler s \<noteq> None \<longrightarrow>
           pgauditlogtofile_record_audit h g s edata n = pgauditlogtofile_write_audit h s edata n)"
proof -
  obtain rot s1 where nr: "pgauditlogtofile_needs_rotate_file h g s = Inr (rot, s1)"
    and iff: "rot \<longleftrightarrow> force \<or> time_of_check h \<ge> next_rotation_time s \<or> filename_in_use s \<noteq> filename s"
    and a: "force \<longrightarrow> s1 = s\<lparr>pgaudit_log_shm := Some False\<rparr>"
    and b: "\<not> force \<and> time_of_check h \<ge> next_rotation_time s \<longrightarrow>
           pgauditlogtofile_calculate_next_rotation_time h g s = Inr s1"
    and c: "\<not> force \<and> time_of_check h < next_rotation_time s \<longrightarrow> s1 = s"
    using needs_rotate_file_cases [OF shm age, of h] by blast
  have d: "rot \<longrightarrow>
           pgauditlogtofile_record_audit h g s edata n =
             and_then (pgauditlogtofile_calculate_filename h g s1)
               (\<lambda>s2. let (opened, s4) =
                             pgauditlogtofile_open_file h g (pgauditlogtofile_close_file s2)
                      in if \<not> opened then Inr (False, s4)
                         else pgauditlogtofile_write_audit h s4 edata n)"
  proof
    assume rot
    then have "pgauditlogtofile_needs_rotate_file h g s = Inr (True, s1)" using nr by simp
    then show "pgauditlogtofile_record_audit h g s edata n =
             and_then (pgauditlogtofile_calculate_filename h g s1)
               (\<lambda>s2. let (opened, s4) =
                             pgauditlogtofile_open_file h g (pgauditlogtofile_close_file s2)
                      in if \<not> opened then Inr (False, s4)
                         else pgauditlogtofile_write_audit h s4 edata n)"
      by (rule record_audit_reopen)
  qed
  have e: "\<not> rot \<and> file_handler s \<noteq> None \<longrightarrow>
           pgauditlogtofile_record_audit h g s edata n = pgauditlogtofile_write_audit h s edata n"
  proof (intro impI, elim conjE)
    assume nrot: "\<not> rot" and op: "file_handler s \<noteq> None"
    then have "s1 = s" using iff c by auto
    then show "pgauditlogtofile_record_audit h g s edata n = pgauditlogtofile_write_audit h s edata n"
      using record_audit_reuse [of h g s s edata n] nr nrot op by simp
  qed
  show ?thesis
    using nr iff a b c d e by blast
qed


lemma request_rotation_frame:
  assumes "pgauditlogtofile_request_rotation used s = Inr s'"
  shows "file_handler s' = file_handler s \<and> filename_in_use s' = filename_in_use s"
  using assms
  by (auto simp: pgauditlogtofile_request_rotation_def split: if_splits option.splits)

lemma calculate_next_rotation_time_frame:
  assumes "pgauditlogtofile_calculate_next_rotation_time h g s = Inr s'"
  shows "\<exists>t. s' = s\<lparr>next_rotation_time := t\<rparr>"
  using assms
  by (auto simp: pgauditlogtofile_calculate_next_rotation_time_def Let_def split: if_splits)

lemma shmem_startup_frame:
  assumes "pgauditlogtofile_shmem_startup h g found segment s = Inr s'"
  shows "file_handler s' = file_handler s \<and> filename_in_use s' = filename_in_use s"
proof (cases found)
  case True
  then show ?thesis using assms by (auto simp: pgauditlogtofile_shmem_startup_def)
next
  case False
  then obtain s1 where c1: "pgauditlogtofile_calculate_next_rotation_time h g
        (s\<lparr>pgaudit_log_shm := Some False\<rparr>) = Inr s1"
      and c2: "pgauditlogtofile_calculate_filename h g s1 = Inr s'"
    using assms
    by (cases "pgauditlogtofile_calculate_next_rotation_time h g (s\<lparr>pgaudit_log_shm := Some False\<rparr>)")
      (auto simp: pgauditlogtofile_shmem_startup_def)
  from calculate_next_rotation_time_frame [OF c1] calculate_filename_frame [OF c2]
  show ?thesis by auto
qed

lemma needs_rotate_file_host:
  "pgauditlogtofile_needs_rotate_file (h\<lparr>fopen_succeeds := f, fwrite_count := w\<rparr>) g s
     = pgauditlogtofile_needs_rotate_file h g s"
  by (simp add: pgauditlogtofile_needs_rotate_file_def
      pgauditlogtofile_calculate_next_rotation_time_def Let_def split: option.splits)

subsection \<open>The file session\<close>

text \<open>
  The invariant \<open>session_inv\<close> (an open stream was opened on \<open>filename_in_use\<close>) is kept
  by every operation of the file. \<^verbatim>\<open>pgauditlogtofile_open_file\<close> sets \<open>filename_in_use\<close>
  to \<open>filename\<close> only when \<^verbatim>\<open>fopen\<close> succeeds and leaves it alone when it fails, as does
  \<^verbatim>\<open>pgauditlogtofile_close_file\<close>. With no force flag and the boundary not reached, the
  rotation decision is the comparison of \<open>filename_in_use\<close> with the static \<open>filename\<close>,
  and it never depends on what the file system answers.
\<close>

lemma file_session_invariant:
  assumes inv: "session_inv s"
  shows "session_inv (pgauditlogtofile_close_file s)
     \<and> filename_in_use (pgauditlogtofile_close_file s) = filename_in_use s
     \<and> session_inv (snd (pgauditlogtofile_open_file h g s))
     \<and> (fopen_succeeds h (filename s) \<longrightarrow>
          file_handler (snd (pgauditlogtofile_open_file h g s)) = Some (FILE (filename s))
        \<and> filename_in_use (snd (pgauditlogtofile_open_file h g s)) = filename s)
     \<and> (\<not> fopen_succeeds h (filename s) \<longrightarrow>
          file_handler (snd (pgauditlogtofile_open_file h g s)) = None
        \<and> filename_in_use (snd (pgauditlogtofile_open_file h g s)) = filename_in_use s)
     \<and> (\<forall>s'. pgauditlogtofile_calculate_filename h g s = Inr s' \<longrightarrow> session_inv s')
     \<and> (\<forall>s'. pgauditlogtofile_calculate_next_rotation_time h g s = Inr s' \<longrightarrow> session_inv s')
     \<and> (\<forall>rot s'. pgauditlogtofile_needs_rotate_file h g s = Inr (rot, s') \<longrightarrow> session_inv s')
     \<and> (\<forall>ok s'. pgauditlogtofile_write_audit h s edata n = Inr (ok, s') \<longrightarrow> session_inv s')
     \<and> (\<forall>ok s'. pgauditlogtofile_record_audit h g s edata n = Inr (ok, s') \<longrightarrow> session_inv s')
     \<and> (\<forall>edata' s'. pgauditlogtofile_emit_log h g s edata = Inr (edata', s') \<longrightarrow> session_inv s')
     \<and> (\<forall>s'. pgauditlogtofile_request_rotation used s = Inr s' \<longrightarrow> session_inv s')
     \<and> (\<forall>s'. pgauditlogtofile_shmem_startup h g found segment s = Inr s' \<longrightarrow> session_inv s')
     \<and> (pgaudit_log_shm s = Some False \<and> time_of_check h < next_rotation_time s \<longrightarrow>
          pgauditlogtofile_needs_rotate_file h g s = Inr (filename_in_use s \<noteq> filename s, s))
     \<and> pgauditlogtofile_needs_rotate_file (h\<lparr>fopen_succeeds := f, fwrite_count := w\<rparr>) g s
          = pgauditlogtofile_needs_rotate_file h g s"
proof -
  have c1: "session_inv (pgauditlogtofile_close_file s)" by (simp add: session_inv_iff)
  have c2: "filename_in_use (pgauditlogtofile_close_file s) = filename_in_use s" by simp
  have c3: "session_inv (snd (pgauditlogtofile_open_file h g s))" by (rule open_file_inv)
  have c4: "fopen_succeeds h (filename s) \<longrightarrow>
          file_handler (snd (pgauditlogtofile_open_file h g s)) = Some (FILE (filename s))
        \<and> filename_in_use (snd (pgauditlogtofile_open_file h g s)) = filename s"
    using open_file_success [of h s g] by auto
  have c5: "\<not> fopen_succeeds h (filename s) \<longrightarrow>
          file_handler (snd (pgauditlogtofile_open_file h g s)) = None
        \<and> filename_in_use (snd (pgauditlogtofile_open_file h g s)) = filename_in_use s"
    using open_file_failure [of h s g] by auto
  have c6: "\<forall>s'. pgauditlogtofile_calculate_filename h g s = Inr s' \<longrightarrow> session_inv s'"
    using calculate_filename_frame [of h g s] inv by (auto simp: session_inv_iff)
  have c7: "\<forall>s'. pgauditlogtofile_calculate_next_rotation_time h g s = Inr s' \<longrightarrow> session_inv s'"
    using calculate_next_rotation_time_frame [of h g s] inv by (auto simp: session_inv_iff)
  have c8: "\<forall>rot s'. pgauditlogtofile_needs_rotate_file h g s = Inr (rot, s') \<longrightarrow> session_inv s'"
    using needs_rotate_file_frame [of h g s] inv by (auto simp: session_inv_iff)
  have c9: "\<forall>ok s'. pgauditlogtofile_write_audit h s edata n = Inr (ok, s') \<longrightarrow> session_inv s'"
    using write_audit_keeps [of h s edata n] inv by (auto simp: session_inv_iff)
  have c10: "\<forall>ok s'. pgauditlogtofile_record_audit h g s edata n = Inr (ok, s') \<longrightarrow> session_inv s'"
    using record_audit_inv [OF inv] by blast
  have c11: "\<forall>edata' s'. pgauditlogtofile_emit_log h g s edata = Inr (edata', s') \<longrightarrow> session_inv s'"
    using emit_log_inv [OF inv] by blast
  have c12: "\<forall>s'. pgauditlogtofile_request_rotation used s = Inr s' \<longrightarrow> session_inv s'"
    using request_rotation_frame [of used s] inv by (auto simp: session_inv_iff)
  have c13: "\<forall>s'. pgauditlogtofile_shmem_startup h g found segment s = Inr s' \<longrightarrow> session_inv s'"
    using shmem_startup_frame [of h g found segment s] inv by (auto simp: session_inv_iff)
  have c14: "pgaudit_log_shm s = Some False \<and> time_of_check h < next_rotation_time s \<longrightarrow>
          pgauditlogtofile_needs_rotate_file h g s = Inr (filename_in_use s \<noteq> filename s, s)"
    by (simp add: pgauditlogtofile_needs_rotate_file_def)
  have c15: "pgauditlogtofile_needs_rotate_file (h\<lparr>fopen_succeeds := f, fwrite_count := w\<rparr>) g s
          = pgauditlogtofile_needs_rotate_file h g s"
    by (rule needs_rotate_file_host)
  show ?thesis
    by (intro conjI c1 c2 c3 c4 c5 c6 c7 c8 c9 c10 c11 c12 c13 c14 c15)
qed


subsection \<open>The record formatter\<close>

lemma length_split_on: "length (split_on c xs) = Suc (count_list xs c)"
  by (induction xs) (auto split: list.splits)

lemma split_on_plain: "c \<notin> set f \<Longrightarrow> split_on c f = [f]"
  by (induction f) auto

lemma split_on_field: "c \<notin> set f \<Longrightarrow> split_on c (f @ c # rest) = f # split_on c rest"
  by (induction f) (auto split: list.splits)

lemma split_join:
  "fs \<noteq> [] \<Longrightarrow> \<forall>f \<in> set fs. c \<notin> set f \<Longrightarrow> split_on c (join_with c fs) = fs"
proof (induction c fs rule: join_with.induct)
  case (1 c)
  then show ?case by simp
next
  case (2 c f)
  then show ?case by (simp add: split_on_plain)
next
  case (3 c f g fs)
  then show ?case by (simp add: split_on_field)
qed

lemma count_join:
  "fs \<noteq> [] \<Longrightarrow>
     count_list (join_with c fs) c = length fs - 1 + sum_list (map (\<lambda>f. count_list f c) fs)"
proof (induction c fs rule: join_with.induct)
  case (1 c)
  then show ?case by simp
next
  case (2 c f)
  then show ?case by simp
next
  case (3 c f g fs)
  then show ?case by simp
qed

lemma length_audit_fields: "length (audit_fields h s edata text) = 22"
  by (simp add: audit_fields_def)

lemma create_audit_line_fields:
  assumes "message edata = Some msg" and "0 \<le> n" and "n \<le> int (length msg)"
  shows "pgauditlogtofile_create_audit_line h s edata n =
           Inr (join_with CHR '','' (audit_fields h (next_log_line h s) edata (drop (nat n) msg))
                  @ [CHR 0x0A],
                next_log_line h s)"
  using assms
  by (simp add: pgauditlogtofile_create_audit_line_def audit_fields_def Let_def)


lemma resplit_count_fields:
  assumes "message edata = Some msg" and "0 \<le> n" and "n \<le> int (length msg)"
  shows "resplit_count (pgauditlogtofile_create_audit_line h s edata n)
           = Some (22 + sum_list (map (\<lambda>f. count_list f CHR '','')
                 (audit_fields h (next_log_line h s) edata (drop (nat n) msg))))"
proof -
  have "audit_fields h (next_log_line h s) edata (drop (nat n) msg) \<noteq> []"
    using length_audit_fields [of h "next_log_line h s" edata "drop (nat n) msg"] by auto
  then show ?thesis
    unfolding create_audit_line_fields [OF assms]
    by (simp add: resplit_count_def length_split_on count_join length_audit_fields)
qed

text \<open>
  C8, as the code has it. For every event with a message, the formatter returns a line
  that is the 22 field values joined by 21 commas of its own and closed by a newline,
  whichever optional sources are absent; an absent source leaves its position empty.
  The values are not escaped: splitting the line at the commas gives 22 fields plus one
  for every comma inside a value, and gives back the 22 values when none of them holds a
  comma.
\<close>

theorem formatter_fixed_delimiters:
  assumes msg: "message edata = Some msg" and lo: "0 \<le> n" and hi: "n \<le> int (length msg)"
  shows "\<exists>body fields.
           fields = audit_fields h (next_log_line h s) edata (drop (nat n) msg)
         \<and> pgauditlogtofile_create_audit_line h s edata n = Inr (body @ [CHR 0x0A], next_log_line h s)
         \<and> body = join_with CHR '','' fields
         \<and> length fields = 22
         \<and> count_list body CHR '','' = 21 + sum_list (map (\<lambda>f. count_list f CHR '','') fields)
         \<and> resplit_count (pgauditlogtofile_create_audit_line h s edata n)
             = Some (22 + sum_list (map (\<lambda>f. count_list f CHR '','') fields))
         \<and> ((\<forall>f \<in> set fields. CHR '','' \<notin> set f) \<longrightarrow> split_on CHR '','' body = fields)
         \<and> (MyProcPort h = None \<longrightarrow>
               fields ! 1 = [] \<and> fields ! 2 = [] \<and> fields ! 4 = [] \<and> fields ! 7 = [])
         \<and> (MyProc h = None \<longrightarrow> fields ! 9 = [])
         \<and> (detail_log edata = None \<and> detail edata = None \<longrightarrow> fields ! 13 = [])
         \<and> (hint edata = None \<longrightarrow> fields ! 14 = [])
         \<and> (internalquery edata = None \<longrightarrow> fields ! 15 = [] \<and> fields ! 16 = [])
         \<and> (err_context edata = None \<longrightarrow> fields ! 17 = [])
         \<and> (debug_query_string h = None \<longrightarrow> fields ! 18 = [] \<and> fields ! 19 = [])
         \<and> (err_filename edata = None \<longrightarrow> fields ! 20 = [])
         \<and> (application_name h = None \<longrightarrow> fields ! 21 = [])"
proof -
  define fields where "fields = audit_fields h (next_log_line h s) edata (drop (nat n) msg)"
  define body where "body = join_with CHR '','' fields"
  have len: "length fields = 22" by (simp add: fields_def length_audit_fields)
  then have ne: "fields \<noteq> []" by auto
  have run: "pgauditlogtofile_create_audit_line h s edata n = Inr (body @ [CHR 0x0A], next_log_line h s)"
    unfolding body_def fields_def using msg lo hi by (rule create_audit_line_fields)
  have cnt: "count_list body CHR '','' = 21 + sum_list (map (\<lambda>f. count_list f CHR '','') fields)"
    unfolding body_def using count_join [OF ne, of "CHR '',''"] len by simp
  have rs: "resplit_count (pgauditlogtofile_create_audit_line h s edata n)
             = Some (22 + sum_list (map (\<lambda>f. count_list f CHR '','') fields))"
    unfolding fields_def using msg lo hi by (rule resplit_count_fields)
  have rt: "(\<forall>f \<in> set fields. CHR '','' \<notin> set f) \<longrightarrow> split_on CHR '','' body = fields"
    unfolding body_def using split_join [OF ne] by blast
  have e1: "MyProcPort h = None \<longrightarrow>
               fields ! 1 = [] \<and> fields ! 2 = [] \<and> fields ! 4 = [] \<and> fields ! 7 = []"
    by (simp add: fields_def audit_fields_def)
  have e2: "MyProc h = None \<longrightarrow> fields ! 9 = []"
    by (simp add: fields_def audit_fields_def)
  have e3: "detail_log edata = None \<and> detail edata = None \<longrightarrow> fields ! 13 = []"
    by (simp add: fields_def audit_fields_def append_if_set_def)
  have e4: "hint edata = None \<longrightarrow> fields ! 14 = []"
    by (simp add: fields_def audit_fields_def append_if_set_def)
  have e5: "internalquery edata = None \<longrightarrow> fields ! 15 = [] \<and> fields ! 16 = []"
    by (simp add: fields_def audit_fields_def append_if_set_def)
  have e6: "err_context edata = None \<longrightarrow> fields ! 17 = []"
    by (simp add: fields_def audit_fields_def append_if_set_def)
  have e7: "debug_query_string h = None \<longrightarrow> fields ! 18 = [] \<and> fields ! 19 = []"
    by (simp add: fields_def audit_fields_def append_if_set_def)
  have e8: "err_filename edata = None \<longrightarrow> fields ! 20 = []"
    by (simp add: fields_def audit_fields_def)
  have e9: "application_name h = None \<longrightarrow> fields ! 21 = []"
    by (simp add: fields_def audit_fields_def append_if_set_def)
  show ?thesis
    apply (rule exI [of _ body])
    apply (rule exI [of _ fields])
    apply (intro conjI fields_def run body_def len cnt rs rt e1 e2 e3 e4 e5 e6 e7 e8 e9)
    done
qed

lemma demo_line_state:
  "next_log_line demo_host demo_worker
     = demo_worker\<lparr>log_line_number := 1, log_my_pid := 4242,
         formatted_start_time := ''2023-11-14 09:20:00 CET''\<rparr>"
  by (simp add: next_log_line_def demo_host_def demo_worker_def)

lemma demo_numbers:
  "fmt_d 4242 = ''4242''" "fmt_d 1 = ''1''" "fmt_d 3 = ''3''" "fmt_u 7 = ''7''" "fmt_u 0 = ''0''"
  "fmt_x 4242 = ''1092''" "fmt_lx 1699950000 = ''65532db0''"
  by (simp_all add: fmt_d_def fmt_u_def fmt_x_def fmt_lx_def digits_in.simps digit_char_def)

lemma demo_fields:
  "audit_fields demo_host (next_log_line demo_host demo_worker)
      (demo_event\<lparr>message := m\<rparr>) text
   = [''2023-11-14 10:15:00.000 CET'', ''alice'', ''shop'', ''4242'', ''10.0.0.7:5432'',
      ''65532db0.1092'', ''1'', ''SELECT'', ''2023-11-14 09:20:00 CET'', ''3/7'', ''0'',
      ''00000'', text, [], [], [], [], [], ''select 1'', [], [], ''psql'']"
  unfolding demo_line_state
  by (simp add: audit_fields_def demo_host_def demo_port_def demo_event_def demo_worker_def
      append_if_set_def InvalidBackendId_def PGERROR_VERBOSE_def demo_numbers)


text \<open>
  C8 as stated fails: two events that differ only in the message text split into 23 and
  into 22 fields.
\<close>

theorem field_count_varies_counterexample:
  "resplit_count (pgauditlogtofile_create_audit_line demo_host demo_worker
        (demo_event\<lparr>message := Some ''AUDIT: foo,bar''\<rparr>) 7) = Some 23
   \<and> resplit_count (pgauditlogtofile_create_audit_line demo_host demo_worker
        (demo_event\<lparr>message := Some ''AUDIT: foo''\<rparr>) 7) = Some 22"
proof -
  have a: "resplit_count (pgauditlogtofile_create_audit_line demo_host demo_worker
        (demo_event\<lparr>message := Some ''AUDIT: foo,bar''\<rparr>) 7) = Some 23"
    by (subst resplit_count_fields [where msg = "''AUDIT: foo,bar''"])
      (simp_all add: demo_fields)
  have b: "resplit_count (pgauditlogtofile_create_audit_line demo_host demo_worker
        (demo_event\<lparr>message := Some ''AUDIT: foo''\<rparr>) 7) = Some 22"
    by (subst resplit_count_fields [where msg = "''AUDIT: foo''"])
      (simp_all add: demo_fields)
  show ?thesis using a b by simp
qed

theorem formatter_fixed_delimiters_witness:
  "message (demo_event\<lparr>message := Some ''AUDIT: foo''\<rparr>) = Some ''AUDIT: foo''
   \<and> (0::int) \<le> 7 \<and> 7 \<le> int (length ''AUDIT: foo'')
   \<and> resplit_count (pgauditlogtofile_create_audit_line demo_host demo_worker
        (demo_event\<lparr>message := Some ''AUDIT: foo''\<rparr>) 7) = Some 22
   \<and> (\<exists>body. pgauditlogtofile_create_audit_line demo_host demo_worker
          (demo_event\<lparr>message := Some ''AUDIT: foo''\<rparr>) 7
            = Inr (body @ [CHR 0x0A], next_log_line demo_host demo_worker)
        \<and> split_on CHR '','' body
            = [''2023-11-14 10:15:00.000 CET'', ''alice'', ''shop'', ''4242'', ''10.0.0.7:5432'',
               ''65532db0.1092'', ''1'', ''SELECT'', ''2023-11-14 09:20:00 CET'', ''3/7'', ''0'',
               ''00000'', ''foo'', [], [], [], [], [], ''select 1'', [], [], ''psql''])"
proof -
  have msg: "message (demo_event\<lparr>message := Some ''AUDIT: foo''\<rparr>) = Some ''AUDIT: foo''"
    by simp
  have lo: "(0::int) \<le> 7" and hi: "7 \<le> int (length ''AUDIT: foo'')" by simp_all
  have dr: "drop (nat 7) ''AUDIT: foo'' = ''foo''" by simp
  define fs where "fs = [''2023-11-14 10:15:00.000 CET'', ''alice'', ''shop'', ''4242'', ''10.0.0.7:5432'',
               ''65532db0.1092'', ''1'', ''SELECT'', ''2023-11-14 09:20:00 CET'', ''3/7'', ''0'',
               ''00000'', ''foo'', [], [], [], [], [], ''select 1'', [], [], ''psql'']"
  have clean: "\<forall>f \<in> set fs. CHR '','' \<notin> set f" by (simp add: fs_def)
  have zero: "sum_list (map (\<lambda>f. count_list f CHR '','') fs) = 0" by (simp add: fs_def)
  have fields: "audit_fields demo_host (next_log_line demo_host demo_worker)
      (demo_event\<lparr>message := Some ''AUDIT: foo''\<rparr>) ''foo'' = fs"
    by (simp add: demo_fields fs_def)
  from formatter_fixed_delimiters [OF msg lo hi, of demo_host demo_worker]
  obtain body where
        run: "pgauditlogtofile_create_audit_line demo_host demo_worker
          (demo_event\<lparr>message := Some ''AUDIT: foo''\<rparr>) 7
            = Inr (body @ [CHR 0x0A], next_log_line demo_host demo_worker)"
    and cnt: "resplit_count (pgauditlogtofile_create_audit_line demo_host demo_worker
        (demo_event\<lparr>message := Some ''AUDIT: foo''\<rparr>) 7)
          = Some (22 + sum_list (map (\<lambda>f. count_list f CHR '','') fs))"
    and rt: "(\<forall>f \<in> set fs. CHR '','' \<notin> set f) \<longrightarrow> split_on CHR '','' body = fs"
    unfolding dr fields by blast
  have "split_on CHR '','' body = fs" using rt clean by blast
  then show ?thesis
    using msg lo hi run cnt unfolding zero fs_def by simp
qed


subsection \<open>Interception and fallback\<close>

lemma fold_upper_zero: "fold_upper ch = 0 \<longleftrightarrow> ch = 0"
  by (simp add: fold_upper_def)

lemma pg_strncasecmp_zero_iff:
  assumes "n \<le> length p" and "\<forall>c \<in> set p. of_char c \<noteq> (0::nat)"
  shows "pg_strncasecmp s p n = 0 \<longleftrightarrow> n \<le> length s \<and> same_ignoring_case (take n s) (take n p)"
  using assms
proof (induction n arbitrary: s p)
  case 0
  then show ?case by (simp add: same_ignoring_case_def)
next
  case (Suc n)
  then obtain c p' where p: "p = c # p'" by (cases p) auto
  have c0: "of_char c \<noteq> (0::nat)" using Suc.prems(2) p by simp
  have ih: "pg_strncasecmp s' p' n = 0 \<longleftrightarrow> n \<le> length s' \<and> same_ignoring_case (take n s') (take n p')"
    for s' using Suc.IH [of p' s'] Suc.prems p by simp
  show ?case
  proof (cases s)
    case Nil
    have "fold_upper 0 = 0" by (simp add: fold_upper_def)
    moreover have "fold_upper (of_char c) \<noteq> 0" using c0 by (simp add: fold_upper_zero)
    ultimately show ?thesis using Nil c0 p
      by (simp add: byte_at_def Let_def)
  next
    case (Cons a s')
    show ?thesis
    proof (cases "fold_upper (of_char a) = fold_upper (of_char c)")
      case True
      then have a0: "of_char a \<noteq> (0::nat)" using c0 fold_upper_zero by metis
      show ?thesis
        using True a0 ih [of s'] Cons p
        by (simp add: byte_at_def Let_def same_ignoring_case_def)
    next
      case False
      then have "of_char a \<noteq> (of_char c :: nat)" by auto
      then show ?thesis using False Cons p
        by (simp add: byte_at_def Let_def same_ignoring_case_def)
    qed
  qed
qed

lemma audit_prefix_iff:
  "pg_strncasecmp msg PGAUDIT_PREFIX_LINE PGAUDIT_PREFIX_LINE_LENGTH = 0
     \<longleftrightarrow> 7 \<le> length msg \<and> same_ignoring_case (take 7 msg) ''AUDIT: ''"
proof -
  have len: "PGAUDIT_PREFIX_LINE_LENGTH = 7"
    by (simp add: PGAUDIT_PREFIX_LINE_def PGAUDIT_PREFIX_LINE_LENGTH_def)
  have tk: "take 7 ''AUDIT: '' = ''AUDIT: ''" by simp
  have "pg_strncasecmp msg ''AUDIT: '' 7 = 0
     \<longleftrightarrow> 7 \<le> length msg \<and> same_ignoring_case (take 7 msg) (take 7 ''AUDIT: '')"
    by (rule pg_strncasecmp_zero_iff) simp_all
  then show ?thesis
    unfolding len PGAUDIT_PREFIX_LINE_def tk .
qed

lemma same_ignoring_case_length: "same_ignoring_case a b \<Longrightarrow> length a = length b"
  unfolding same_ignoring_case_def by (rule map_eq_imp_length_eq)


lemma intercept_audit:
  assumes "pg_strncasecmp msg PGAUDIT_PREFIX_LINE PGAUDIT_PREFIX_LINE_LENGTH = 0"
  shows "intercept g msg edata = (7, edata\<lparr>output_to_server := False\<rparr>)"
  using assms
  by (simp add: intercept_def PGAUDIT_PREFIX_LINE_LENGTH_def PGAUDIT_PREFIX_LINE_def)

lemma intercept_captured:
  assumes "0 \<le> fst (intercept g msg edata)"
  shows "snd (intercept g msg edata) = edata\<lparr>output_to_server := False\<rparr>
       \<and> (fst (intercept g msg edata) = 7 \<or> fst (intercept g msg edata) = 0)
       \<and> fst (intercept g msg edata) \<le> int (length msg)"
proof (cases "pg_strncasecmp msg PGAUDIT_PREFIX_LINE PGAUDIT_PREFIX_LINE_LENGTH = 0")
  case True
  then have "7 \<le> length msg" by (simp add: audit_prefix_iff)
  then show ?thesis using intercept_audit [OF True, of g edata] by simp
next
  case False
  then show ?thesis using assms by (simp add: intercept_def split: if_splits)
qed

lemma emit_log_captured:
  assumes en: "pgauditlogtofile_is_enabled g s"
      and msg: "message edata = Some msg"
      and cap: "0 \<le> fst (intercept g msg edata)"
  shows "pgauditlogtofile_emit_log h g s edata =
           and_then (pgauditlogtofile_record_audit h g s (edata\<lparr>output_to_server := False\<rparr>)
                       (fst (intercept g msg edata)))
             (\<lambda>(recorded, s1).
                Inr (call_prev_hook h (edata\<lparr>output_to_server := \<not> recorded\<rparr>), s1))"
proof -
  obtain n e1 where ic: "intercept g msg edata = (n, e1)" by (cases "intercept g msg edata")
  have e1: "e1 = edata\<lparr>output_to_server := False\<rparr>"
    using intercept_captured [OF cap] ic by simp
  have n: "0 \<le> n" using cap ic by simp
  have unfold: "pgauditlogtofile_emit_log h g s edata =
      and_then (pgauditlogtofile_record_audit h g s e1 n)
        (\<lambda>(recorded, s1).
           Inr (call_prev_hook h (if \<not> recorded then e1\<lparr>output_to_server := True\<rparr> else e1), s1))"
    using en msg n by (simp add: pgauditlogtofile_emit_log_def ic)
  show ?thesis
  proof (cases "pgauditlogtofile_record_audit h g s e1 n")
    case (Inl f)
    then show ?thesis unfolding unfold using ic e1 by simp
  next
    case (Inr r)
    obtain recorded s1 where r: "r = (recorded, s1)" by (cases r)
    show ?thesis unfolding unfold using Inr ic
      by (cases recorded) (simp_all add: r e1)
  qed
qed







subsection \<open>The cached filename and the cached boundary\<close>

lemma open_worker_value:
  "open_worker = demo_worker
     \<lparr>file_handler := Some (FILE ''log/audit-1699952400''),
      filename_in_use := ''log/audit-1699952400'',
      io_trace := [Mkdir (Some ''log''), Fopen ''log/audit-1699952400'' True,
                   Setvbuf (FILE ''log/audit-1699952400'')]\<rparr>"
  by (simp add: open_worker_def pgauditlogtofile_open_file_def demo_host_def demo_guc_def
      demo_worker_def Let_def)

lemma demo_stamp: "fmt_d 1699952400 = ''1699952400''" "fmt_d 1699869600 = ''1699869600''"
  by (simp_all add: fmt_d_def digits_in.simps digit_char_def)

lemma write_audit_trace:
  assumes msg: "message edata = Some msg" and lo: "0 \<le> n" and hi: "n \<le> int (length msg)"
      and fh: "file_handler s = Some fh"
  shows "pgauditlogtofile_write_audit h s edata n =
      (let line = join_with CHR '','' (audit_fields h (next_log_line h s) edata (drop (nat n) msg))
                    @ [CHR 0x0A];
           rc = fwrite_count h line
       in Inr (rc = length line,
               (next_log_line h s)
                 \<lparr>io_trace := io_trace s @ [Fseek fh, Fwrite fh (take rc line), Fflush fh]
                      @ (if rc \<noteq> length line then [WarnWrite (filename s)] else [])\<rparr>))"
  using fh
  by (simp add: pgauditlogtofile_write_audit_def create_audit_line_fields [OF msg lo hi] Let_def)


lemma demo_event_message: "message demo_event = Some ''AUDIT: foo,bar''"
  by (simp add: demo_event_def)

lemma open_worker_fields:
  "file_handler open_worker = Some (FILE ''log/audit-1699952400'')"
  "filename_in_use open_worker = ''log/audit-1699952400''"
  "filename open_worker = ''log/audit-1699952400''"
  "pgaudit_log_shm open_worker = Some False"
  "next_rotation_time open_worker = 1699956000"
  by (simp_all add: open_worker_value demo_worker_def)

text \<open>
  C1. The third test of the rotation check compares \<open>filename_in_use\<close> with the static
  \<open>filename\<close> of the process (line 383), which only \<^verbatim>\<open>pgauditlogtofile_calculate_filename\<close>
  rewrites, and that runs after a rotation has been decided. Here the directory has
  changed to \<^verbatim>\<open>log2\<close>, the flag has been consumed by another process and the boundary
  is not reached: the target derived from the configuration is
  \<^verbatim>\<open>log2/audit-1699952400\<close> and differs from \<open>filename_in_use\<close>, yet the check answers
  false and the record is written to the stream opened under \<^verbatim>\<open>log\<close>.
\<close>

theorem cached_name_hides_directory_change:
  "guc_pgaudit_log_directory moved_guc = Some ''log2''
   \<and> file_handler open_worker = Some (FILE ''log/audit-1699952400'')
   \<and> filename_in_use open_worker = ''log/audit-1699952400''
   \<and> pgauditlogtofile_calculate_filename demo_host moved_guc open_worker
       = Inr (open_worker\<lparr>filename := ''log2/audit-1699952400''\<rparr>)
   \<and> pgauditlogtofile_needs_rotate_file demo_host moved_guc open_worker = Inr (False, open_worker)
   \<and> (\<exists>line s'. pgauditlogtofile_record_audit demo_host moved_guc open_worker demo_event 7
                     = Inr (True, s')
         \<and> io_trace s' = io_trace open_worker @
               [Fseek (FILE ''log/audit-1699952400''),
                Fwrite (FILE ''log/audit-1699952400'') line,
                Fflush (FILE ''log/audit-1699952400'')])"
proof -
  have dir: "guc_pgaudit_log_directory moved_guc = Some ''log2''"
    by (simp add: moved_guc_def)
  have name: "pgauditlogtofile_calculate_filename demo_host moved_guc open_worker
       = Inr (open_worker\<lparr>filename := ''log2/audit-1699952400''\<rparr>)"
    by (simp add: pgauditlogtofile_calculate_filename_def moved_guc_def demo_guc_def
        open_worker_fields MAXPGPATH_def SECS_PER_MINUTE_def Let_def demo_host_def demo_stamp)
  have keep: "pgauditlogtofile_needs_rotate_file demo_host moved_guc open_worker = Inr (False, open_worker)"
    by (simp add: pgauditlogtofile_needs_rotate_file_def open_worker_fields demo_host_def)
  have full: "fwrite_count demo_host line = length line" for line
    by (simp add: demo_host_def)
  have "pgauditlogtofile_record_audit demo_host moved_guc open_worker demo_event 7
       = pgauditlogtofile_write_audit demo_host open_worker demo_event 7"
    using keep by (intro record_audit_reuse) (simp_all add: open_worker_fields)
  also have "\<dots> = (let line = join_with CHR '',''
                 (audit_fields demo_host (next_log_line demo_host open_worker) demo_event
                    (drop (nat 7) ''AUDIT: foo,bar'')) @ [CHR 0x0A];
               rc = fwrite_count demo_host line
       in Inr (rc = length line,
               (next_log_line demo_host open_worker)
                 \<lparr>io_trace := io_trace open_worker @
                      [Fseek (FILE ''log/audit-1699952400''),
                       Fwrite (FILE ''log/audit-1699952400'') (take rc line),
                       Fflush (FILE ''log/audit-1699952400'')]
                      @ (if rc \<noteq> length line then [WarnWrite (filename open_worker)] else [])\<rparr>))"
    by (rule write_audit_trace [OF demo_event_message]) (simp_all add: open_worker_fields)
  finally have rec: "\<exists>line s'. pgauditlogtofile_record_audit demo_host moved_guc open_worker demo_event 7
                     = Inr (True, s')
         \<and> io_trace s' = io_trace open_worker @
               [Fseek (FILE ''log/audit-1699952400''),
                Fwrite (FILE ''log/audit-1699952400'') line,
                Fflush (FILE ''log/audit-1699952400'')]"
    by (simp add: Let_def full)
  show ?thesis
    using dir name keep rec by (simp add: open_worker_fields)
qed

text \<open>
  C5. The invariant holds in this state, but staleness is not decided against the
  freshly derived target filename: the filename pattern has changed, the target derived
  from the configuration is \<^verbatim>\<open>log/pgaudit-1699952400\<close> and differs from
  \<open>filename_in_use\<close>, and the rotation check, which compares with the static \<open>filename\<close>
  of the process, answers false.
\<close>

theorem stale_session_reported_fresh:
  "session_inv open_worker
   \<and> guc_pgaudit_log_filename renamed_guc = Some ''pgaudit-''
   \<and> pgauditlogtofile_calculate_filename demo_host renamed_guc open_worker
       = Inr (open_worker\<lparr>filename := ''log/pgaudit-1699952400''\<rparr>)
   \<and> filename_in_use open_worker = ''log/audit-1699952400''
   \<and> filename open_worker = ''log/audit-1699952400''
   \<and> pgauditlogtofile_needs_rotate_file demo_host renamed_guc open_worker = Inr (False, open_worker)"
proof -
  have inv: "session_inv open_worker"
    by (simp add: session_inv_def open_worker_fields)
  have pat: "guc_pgaudit_log_filename renamed_guc = Some ''pgaudit-''"
    by (simp add: renamed_guc_def)
  have name: "pgauditlogtofile_calculate_filename demo_host renamed_guc open_worker
       = Inr (open_worker\<lparr>filename := ''log/pgaudit-1699952400''\<rparr>)"
    by (simp add: pgauditlogtofile_calculate_filename_def renamed_guc_def demo_guc_def
        open_worker_fields MAXPGPATH_def SECS_PER_MINUTE_def Let_def demo_host_def demo_stamp)
  have keep: "pgauditlogtofile_needs_rotate_file demo_host renamed_guc open_worker = Inr (False, open_worker)"
    by (simp add: pgauditlogtofile_needs_rotate_file_def open_worker_fields demo_host_def)
  show ?thesis
    using inv pat name keep by (simp add: open_worker_fields)
qed

text \<open>
  C4. On the path of the force flag the rotation check returns before
  \<open>next_rotation_time\<close> is recomputed (lines 367-372), and the filename is then rendered
  one interval before the old boundary. At 14:30 local time with the boundary still at
  11:00, the record goes to the file of the window that started at 10:00, while the
  window that contains the clock reading starts at 14:00 (1699966800). After the
  interval has changed from 60 minutes to one day, the pattern is rendered at
  1699869600, which is 11:00 local time: no start of a one-day window.
\<close>

theorem forced_rotation_renders_stale_window:
  "time_of_check late_host = 1699968600
   \<and> pgauditlogtofile_needs_rotate_file late_host demo_guc (open_worker\<lparr>pgaudit_log_shm := Some True\<rparr>)
       = Inr (True, open_worker\<lparr>pgaudit_log_shm := Some False\<rparr>)
   \<and> next_rotation_time (open_worker\<lparr>pgaudit_log_shm := Some False\<rparr>) = 1699956000
   \<and> pgauditlogtofile_calculate_filename late_host demo_guc (open_worker\<lparr>pgaudit_log_shm := Some False\<rparr>)
       = Inr (open_worker\<lparr>pgaudit_log_shm := Some False, filename := ''log/audit-1699952400''\<rparr>)
   \<and> pgauditlogtofile_calculate_next_rotation_time late_host demo_guc open_worker
       = Inr (open_worker\<lparr>next_rotation_time := 1699970400\<rparr>)
   \<and> 1699970400 - guc_pgaudit_log_rotation_age demo_guc * 60 = 1699966800
   \<and> (\<exists>line s'. pgauditlogtofile_record_audit late_host demo_guc
                     (open_worker\<lparr>pgaudit_log_shm := Some True\<rparr>) demo_event 7 = Inr (True, s')
          \<and> file_handler s' = Some (FILE ''log/audit-1699952400'')
          \<and> writes_of (io_trace s') = [Fwrite (FILE ''log/audit-1699952400'') line])
   \<and> pgauditlogtofile_needs_rotate_file demo_host day_guc (open_worker\<lparr>pgaudit_log_shm := Some True\<rparr>)
       = Inr (True, open_worker\<lparr>pgaudit_log_shm := Some False\<rparr>)
   \<and> pgauditlogtofile_calculate_filename demo_host day_guc (open_worker\<lparr>pgaudit_log_shm := Some False\<rparr>)
       = Inr (open_worker\<lparr>pgaudit_log_shm := Some False, filename := ''log/audit-1699869600''\<rparr>)
   \<and> (1699869600 + tm_gmtoff demo_host) mod (guc_pgaudit_log_rotation_age day_guc * 60) = 39600"
proof -
  define s1 where "s1 = open_worker\<lparr>pgaudit_log_shm := Some False\<rparr>"
  have t: "time_of_check late_host = 1699968600" by (simp add: late_host_def)
  have nr: "pgauditlogtofile_needs_rotate_file late_host demo_guc (open_worker\<lparr>pgaudit_log_shm := Some True\<rparr>)
       = Inr (True, s1)"
    by (simp add: pgauditlogtofile_needs_rotate_file_def s1_def)
  have nrt: "next_rotation_time s1 = 1699956000" by (simp add: s1_def open_worker_fields)
  have name: "pgauditlogtofile_calculate_filename late_host demo_guc s1
       = Inr (s1\<lparr>filename := ''log/audit-1699952400''\<rparr>)"
    by (simp add: pgauditlogtofile_calculate_filename_def demo_guc_def nrt
        MAXPGPATH_def SECS_PER_MINUTE_def Let_def late_host_def demo_host_def demo_stamp)
  have clock: "pgauditlogtofile_calculate_next_rotation_time late_host demo_guc open_worker
       = Inr (open_worker\<lparr>next_rotation_time := 1699970400\<rparr>)"
    by (simp add: pgauditlogtofile_calculate_next_rotation_time_def late_host_def demo_host_def
        demo_guc_def SECS_PER_MINUTE_def c_rem_def Let_def)
  have start: "1699970400 - guc_pgaudit_log_rotation_age demo_guc * 60 = 1699966800"
    by (simp add: demo_guc_def)
  define s3 where "s3 = pgauditlogtofile_close_file (s1\<lparr>filename := ''log/audit-1699952400''\<rparr>)"
  have s3: "s3 = s1\<lparr>filename := ''log/audit-1699952400'', file_handler := None,
        io_trace := io_trace open_worker @ [Fclose (FILE ''log/audit-1699952400'')]\<rparr>"
    by (simp add: s3_def pgauditlogtofile_close_file_def s1_def open_worker_fields)
  define s4 where "s4 = s3\<lparr>file_handler := Some (FILE ''log/audit-1699952400''),
        filename_in_use := ''log/audit-1699952400'',
        io_trace := io_trace open_worker @ [Fclose (FILE ''log/audit-1699952400''),
           Mkdir (Some ''log''), Fopen ''log/audit-1699952400'' True,
           Setvbuf (FILE ''log/audit-1699952400'')]\<rparr>"
  have op: "pgauditlogtofile_open_file late_host demo_guc s3 = (True, s4)"
    by (simp add: pgauditlogtofile_open_file_def s3 s4_def late_host_def demo_host_def
        demo_guc_def Let_def)
  have fh4: "file_handler s4 = Some (FILE ''log/audit-1699952400'')" by (simp add: s4_def)
  have full: "fwrite_count late_host line = length line" for line
    by (simp add: late_host_def demo_host_def)
  have "pgauditlogtofile_record_audit late_host demo_guc
          (open_worker\<lparr>pgaudit_log_shm := Some True\<rparr>) demo_event 7
        = pgauditlogtofile_write_audit late_host s4 demo_event 7"
    unfolding record_audit_reopen [OF nr] name
    by (simp add: s3_def [symmetric] op)
  also have "\<dots> = (let line = join_with CHR '',''
                 (audit_fields late_host (next_log_line late_host s4) demo_event
                    (drop (nat 7) ''AUDIT: foo,bar'')) @ [CHR 0x0A];
               rc = fwrite_count late_host line
       in Inr (rc = length line,
               (next_log_line late_host s4)
                 \<lparr>io_trace := io_trace s4 @
                      [Fseek (FILE ''log/audit-1699952400''),
                       Fwrite (FILE ''log/audit-1699952400'') (take rc line),
                       Fflush (FILE ''log/audit-1699952400'')]
                      @ (if rc \<noteq> length line then [WarnWrite (filename s4)] else [])\<rparr>))"
    by (rule write_audit_trace [OF demo_event_message _ _ fh4]) simp_all
  finally have rec: "\<exists>line s'. pgauditlogtofile_record_audit late_host demo_guc
                     (open_worker\<lparr>pgaudit_log_shm := Some True\<rparr>) demo_event 7 = Inr (True, s')
          \<and> file_handler s' = Some (FILE ''log/audit-1699952400'')
          \<and> writes_of (io_trace s') = [Fwrite (FILE ''log/audit-1699952400'') line]"
    by (simp add: Let_def full fh4 s4_def writes_of_def open_worker_value)
  have nr2: "pgauditlogtofile_needs_rotate_file demo_host day_guc (open_worker\<lparr>pgaudit_log_shm := Some True\<rparr>)
       = Inr (True, s1)"
    by (simp add: pgauditlogtofile_needs_rotate_file_def s1_def)
  have name2: "pgauditlogtofile_calculate_filename demo_host day_guc s1
       = Inr (s1\<lparr>filename := ''log/audit-1699869600''\<rparr>)"
    by (simp add: pgauditlogtofile_calculate_filename_def day_guc_def demo_guc_def nrt
        MAXPGPATH_def SECS_PER_MINUTE_def Let_def demo_host_def demo_stamp)
  have off: "(1699869600 + tm_gmtoff demo_host) mod (guc_pgaudit_log_rotation_age day_guc * 60) = 39600"
    by (simp add: demo_host_def day_guc_def)
  show ?thesis
    using t nr nrt name clock start rec nr2 name2 off unfolding s1_def by simp
qed

subsection \<open>The record written for a captured event\<close>

lemma audit_fields_same_statics:
  assumes "log_my_pid s' = log_my_pid s" and "log_line_number s' = log_line_number s"
      and "formatted_start_time s' = formatted_start_time s"
  shows "audit_fields h (next_log_line h s') edata text = audit_fields h (next_log_line h s) edata text"
  using assms by (simp add: audit_fields_def next_log_line_def Let_def)

lemma writes_of_simps [simp]:
  "writes_of [] = []"
  "writes_of (Fwrite f b # tr) = Fwrite f b # writes_of tr"
  "writes_of (Mkdir d # tr) = writes_of tr"
  "writes_of (Fopen p ok # tr) = writes_of tr"
  "writes_of (Setvbuf f # tr) = writes_of tr"
  "writes_of (Fseek f # tr) = writes_of tr"
  "writes_of (Fflush f # tr) = writes_of tr"
  "writes_of (Fclose f # tr) = writes_of tr"
  "writes_of (WarnOpen p # tr) = writes_of tr"
  "writes_of (WarnWrite p # tr) = writes_of tr"
  "writes_of (tr @ tr') = writes_of tr @ writes_of tr'"
  by (simp_all add: writes_of_def)

text \<open>What \<^verbatim>\<open>pgauditlogtofile_record_audit\<close> adds to the I/O trace: at most one write, of
  the line formatted from the message behind the excluded prefix.\<close>

lemma record_audit_trace:
  assumes en: "pgauditlogtofile_is_enabled g s"
      and age: "0 < guc_pgaudit_log_rotation_age g"
      and msg: "message edata = Some msg" and lo: "0 \<le> n" and hi: "n \<le> int (length msg)"
      and line: "line = join_with CHR '','' (audit_fields h (next_log_line h s) edata (drop (nat n) msg))
                   @ [CHR 0x0A]"
  shows "\<exists>recorded s' new.
      pgauditlogtofile_record_audit h g s edata n = Inr (recorded, s')
    \<and> io_trace s' = io_trace s @ new
    \<and> (case file_handler s' of
          None \<Rightarrow> \<not> recorded \<and> writes_of new = []
        | Some fh \<Rightarrow> writes_of new = [Fwrite fh (take (fwrite_count h line) line)]
                     \<and> (recorded \<longleftrightarrow> fwrite_count h line = length line))
    \<and> ((\<forall>p. fopen_succeeds h p) \<longrightarrow> file_handler s' \<noteq> None)"
proof -
  obtain force d p where shm: "pgaudit_log_shm s = Some force"
      and d: "guc_pgaudit_log_directory g = Some d" and p: "guc_pgaudit_log_filename g = Some p"
    using en by (auto simp: is_enabled_iff)
  obtain rot s1 where nr: "pgauditlogtofile_needs_rotate_file h g s = Inr (rot, s1)"
    using needs_rotate_file_cases [OF shm age, of h] by blast
  obtain b t where s1: "s1 = s\<lparr>pgaudit_log_shm := b, next_rotation_time := t\<rparr>"
    using needs_rotate_file_frame [OF nr] by blast
  define s3 where "s3 = (if rot
      then pgauditlogtofile_close_file (s1\<lparr>filename := take (MAXPGPATH - 1) (d @ ''/'') @
             pg_strftime h (MAXPGPATH - length (take (MAXPGPATH - 1) (d @ ''/''))) p
               (next_rotation_time s1 - guc_pgaudit_log_rotation_age g * 60)\<rparr>)
      else s1)"
  have mid: "(if rot
                    then and_then (pgauditlogtofile_calculate_filename h g s1)
                           (\<lambda>s2. Inr (pgauditlogtofile_close_file s2))
                    else Inr s1) = Inr s3"
    by (simp add: s3_def calculate_filename_value [OF d p])
  have run: "pgauditlogtofile_record_audit h g s edata n =
      (if file_handler s3 = None then
         (let (opened, s4) = pgauditlogtofile_open_file h g s3
          in if \<not> opened then Inr (False, s4)
             else pgauditlogtofile_write_audit h s4 edata n)
       else pgauditlogtofile_write_audit h s3 edata n)"
    unfolding pgauditlogtofile_record_audit_def nr using mid by simp
  obtain pre where tr3: "io_trace s3 = io_trace s @ pre" and pre: "writes_of pre = []"
    by (cases rot; cases "file_handler s")
      (auto simp: s3_def s1 pgauditlogtofile_close_file_def)
  have st3: "log_my_pid s3 = log_my_pid s" "log_line_number s3 = log_line_number s"
      "formatted_start_time s3 = formatted_start_time s"
    by (cases rot; cases "file_handler s"; simp add: s3_def s1 pgauditlogtofile_close_file_def)+
  have written: "\<exists>recorded s' new.
      pgauditlogtofile_write_audit h s0 edata n = Inr (recorded, s')
    \<and> io_trace s' = io_trace s @ new
    \<and> file_handler s' = Some fh
    \<and> writes_of new = [Fwrite fh (take (fwrite_count h line) line)]
    \<and> (recorded \<longleftrightarrow> fwrite_count h line = length line)"
    if fh: "file_handler s0 = Some fh" and tr0: "io_trace s0 = io_trace s @ pre0"
      and pre0: "writes_of pre0 = []"
      and st0: "log_my_pid s0 = log_my_pid s" "log_line_number s0 = log_line_number s"
        "formatted_start_time s0 = formatted_start_time s"
    for s0 fh pre0
  proof -
    have same: "join_with CHR '','' (audit_fields h (next_log_line h s0) edata (drop (nat n) msg))
        @ [CHR 0x0A] = line"
      unfolding line
      using audit_fields_same_statics [OF st0, of h edata "drop (nat n) msg"] by simp
    define tail where "tail = [Fseek fh, Fwrite fh (take (fwrite_count h line) line), Fflush fh]
          @ (if fwrite_count h line \<noteq> length line then [WarnWrite (filename s0)] else [])"
    define s' where "s' = (next_log_line h s0)\<lparr>io_trace := io_trace s0 @ tail\<rparr>"
    have wr: "pgauditlogtofile_write_audit h s0 edata n = Inr (fwrite_count h line = length line, s')"
      unfolding write_audit_trace [OF msg lo hi fh] same Let_def s'_def tail_def by simp
    have tr: "io_trace s' = io_trace s @ (pre0 @ tail)" by (simp add: s'_def tr0)
    have fh': "file_handler s' = Some fh" by (simp add: s'_def fh)
    have wo: "writes_of (pre0 @ tail) = [Fwrite fh (take (fwrite_count h line) line)]"
      using pre0 by (simp add: tail_def)
    show ?thesis
      using wr tr fh' wo by blast
  qed
  show ?thesis
  proof (cases "file_handler s3")
    case (Some fh)
    from written [OF Some tr3 pre st3]
    obtain recorded s' new where
        "pgauditlogtofile_write_audit h s3 edata n = Inr (recorded, s')"
        "io_trace s' = io_trace s @ new" "file_handler s' = Some fh"
        "writes_of new = [Fwrite fh (take (fwrite_count h line) line)]"
        "recorded \<longleftrightarrow> fwrite_count h line = length line"
      by blast
    then show ?thesis
      unfolding run using Some
      by (intro exI [of _ recorded] exI [of _ s'] exI [of _ new]) simp
  next
    case None
    show ?thesis
    proof (cases "fopen_succeeds h (filename s3)")
      case False
      from open_file_failure [OF False, of g]
      obtain s4 where op: "pgauditlogtofile_open_file h g s3 = (False, s4)"
          and fh4: "file_handler s4 = None"
          and tr4: "io_trace s4 = io_trace s3 @ [Mkdir (guc_pgaudit_log_directory g),
              Fopen (filename s3) False, WarnOpen (filename s3)]"
        by blast
      show ?thesis
        unfolding run using None op fh4 tr4 tr3 pre False
        by (intro exI [of _ False] exI [of _ s4]
            exI [of _ "pre @ [Mkdir (guc_pgaudit_log_directory g),
              Fopen (filename s3) False, WarnOpen (filename s3)]"]) auto
    next
      case True
      define s4 where "s4 = snd (pgauditlogtofile_open_file h g s3)"
      have op: "pgauditlogtofile_open_file h g s3 = (True, s4)"
        using True by (simp add: s4_def pgauditlogtofile_open_file_def Let_def)
      have fh4: "file_handler s4 = Some (FILE (filename s3))"
        and tr4: "io_trace s4 = io_trace s @ (pre @ [Mkdir (guc_pgaudit_log_directory g),
            Fopen (filename s3) True, Setvbuf (FILE (filename s3))])"
        and st4: "log_my_pid s4 = log_my_pid s" "log_line_number s4 = log_line_number s"
          "formatted_start_time s4 = formatted_start_time s"
        using True tr3 st3 by (simp_all add: s4_def pgauditlogtofile_open_file_def Let_def)
      have pre4: "writes_of (pre @ [Mkdir (guc_pgaudit_log_directory g),
            Fopen (filename s3) True, Setvbuf (FILE (filename s3))]) = []"
        using pre by simp
      from written [OF fh4 tr4 pre4 st4]
      obtain recorded s' new where
          "pgauditlogtofile_write_audit h s4 edata n = Inr (recorded, s')"
          "io_trace s' = io_trace s @ new" "file_handler s' = Some (FILE (filename s3))"
          "writes_of new = [Fwrite (FILE (filename s3)) (take (fwrite_count h line) line)]"
          "recorded \<longleftrightarrow> fwrite_count h line = length line"
        by blast
      then show ?thesis
        unfolding run using None op
        by (intro exI [of _ recorded] exI [of _ s'] exI [of _ new]) simp
    qed
  qed
qed


lemma audit_fields_flag [simp]:
  "audit_fields h s (edata\<lparr>output_to_server := b\<rparr>) text = audit_fields h s edata text"
  by (simp add: audit_fields_def cong: option.case_cong if_cong)

text \<open>
  C10. The audit prefix is compared without regard to case. For every message whose
  first 7 characters equal \<^verbatim>\<open>AUDIT: \<close> under case-insensitive comparison (the lower-case
  \<^verbatim>\<open>audit: \<close> is one), with the subsystem enabled and a positive interval: the compare of
  the hook returns 0 and the event is captured with \<^verbatim>\<open>exclude_nchars\<close> 7 and
  \<open>output_to_server\<close> cleared. The hook returns, and what it adds to the I/O trace holds
  at most one \<^verbatim>\<open>fwrite\<close>: of the line whose message field, field 12 counted from 0, is
  the message without its first 7 characters. Nothing is written when the file cannot
  be opened; otherwise the bytes written are those that \<^verbatim>\<open>fwrite\<close> accepts of that line.
  The event leaves the hook with \<open>output_to_server\<close> cleared exactly when the whole line
  was written.
\<close>

theorem audit_prefix_case_insensitive:
  assumes en: "pgauditlogtofile_is_enabled g s"
      and age: "0 < guc_pgaudit_log_rotation_age g"
      and msg: "message edata = Some msg"
      and pre: "same_ignoring_case (take 7 msg) ''AUDIT: ''"
  shows "pg_strncasecmp msg PGAUDIT_PREFIX_LINE PGAUDIT_PREFIX_LINE_LENGTH = 0
       \<and> intercept g msg edata = (7, edata\<lparr>output_to_server := False\<rparr>)
       \<and> (\<exists>recorded s' new line.
             line = join_with CHR '',''
                      (audit_fields h (next_log_line h s) (edata\<lparr>output_to_server := False\<rparr>)
                         (drop 7 msg)) @ [CHR 0x0A]
           \<and> audit_fields h (next_log_line h s) (edata\<lparr>output_to_server := False\<rparr>)
                 (drop 7 msg) ! 12 = drop 7 msg
           \<and> pgauditlogtofile_emit_log h g s edata
               = Inr (call_prev_hook h (edata\<lparr>output_to_server := \<not> recorded\<rparr>), s')
           \<and> io_trace s' = io_trace s @ new
           \<and> (case file_handler s' of
                 None \<Rightarrow> \<not> recorded \<and> writes_of new = []
               | Some fh \<Rightarrow> writes_of new = [Fwrite fh (take (fwrite_count h line) line)]
                            \<and> (recorded \<longleftrightarrow> fwrite_count h line = length line))
           \<and> ((\<forall>p. fopen_succeeds h p) \<longrightarrow> file_handler s' \<noteq> None))
       \<and> same_ignoring_case ''audit: '' ''AUDIT: ''"
proof -
  define e1 where "e1 = edata\<lparr>output_to_server := False\<rparr>"
  define line where "line = join_with CHR '','' (audit_fields h (next_log_line h s) e1 (drop 7 msg))
      @ [CHR 0x0A]"
  have len: "7 \<le> length msg" using same_ignoring_case_length [OF pre] by simp
  have cmp: "pg_strncasecmp msg PGAUDIT_PREFIX_LINE PGAUDIT_PREFIX_LINE_LENGTH = 0"
    using len pre by (simp add: audit_prefix_iff)
  have ic: "intercept g msg edata = (7, edata\<lparr>output_to_server := False\<rparr>)"
    using cmp by (rule intercept_audit)
  have msg1: "message e1 = Some msg" using msg by (simp add: e1_def)
  have line7: "line = join_with CHR '','' (audit_fields h (next_log_line h s) e1 (drop (nat 7) msg))
      @ [CHR 0x0A]"
    by (simp add: line_def)
  have hi: "7 \<le> int (length msg)" using len by simp
  have lo: "(0::int) \<le> 7" by simp
  from record_audit_trace [OF en age msg1 lo hi line7]
  obtain recorded s' new where
      run: "pgauditlogtofile_record_audit h g s e1 7 = Inr (recorded, s')"
    and tr: "io_trace s' = io_trace s @ new"
    and wr: "case file_handler s' of
                 None \<Rightarrow> \<not> recorded \<and> writes_of new = []
               | Some fh \<Rightarrow> writes_of new = [Fwrite fh (take (fwrite_count h line) line)]
                            \<and> (recorded \<longleftrightarrow> fwrite_count h line = length line)"
    and op: "(\<forall>p. fopen_succeeds h p) \<longrightarrow> file_handler s' \<noteq> None"
    by blast
  have cap: "0 \<le> fst (intercept g msg edata)" using ic by simp
  have hook: "pgauditlogtofile_emit_log h g s edata
               = Inr (call_prev_hook h (edata\<lparr>output_to_server := \<not> recorded\<rparr>), s')"
    using emit_log_captured [OF en msg cap, of h] run ic by (simp add: e1_def)
  have field: "audit_fields h (next_log_line h s) e1 (drop 7 msg) ! 12 = drop 7 msg"
    by (simp add: audit_fields_def)
  have lower: "same_ignoring_case ''audit: '' ''AUDIT: ''"
    by (simp add: same_ignoring_case_def fold_upper_def)
  have mid: "\<exists>recorded s' new line.
             line = join_with CHR '',''
                      (audit_fields h (next_log_line h s) (edata\<lparr>output_to_server := False\<rparr>)
                         (drop 7 msg)) @ [CHR 0x0A]
           \<and> audit_fields h (next_log_line h s) (edata\<lparr>output_to_server := False\<rparr>)
                 (drop 7 msg) ! 12 = drop 7 msg
           \<and> pgauditlogtofile_emit_log h g s edata
               = Inr (call_prev_hook h (edata\<lparr>output_to_server := \<not> recorded\<rparr>), s')
           \<and> io_trace s' = io_trace s @ new
           \<and> (case file_handler s' of
                 None \<Rightarrow> \<not> recorded \<and> writes_of new = []
               | Some fh \<Rightarrow> writes_of new = [Fwrite fh (take (fwrite_count h line) line)]
                            \<and> (recorded \<longleftrightarrow> fwrite_count h line = length line))
           \<and> ((\<forall>p. fopen_succeeds h p) \<longrightarrow> file_handler s' \<noteq> None)"
    apply (rule exI [of _ recorded])
    apply (rule exI [of _ s'])
    apply (rule exI [of _ new])
    apply (rule exI [of _ line])
    using hook tr wr op field unfolding line_def e1_def by blast
  show ?thesis
    using cmp ic mid lower by blast
qed

theorem audit_prefix_case_insensitive_witness:
  "pgauditlogtofile_is_enabled demo_guc demo_worker
   \<and> 0 < guc_pgaudit_log_rotation_age demo_guc
   \<and> message (demo_event\<lparr>message := Some ''audit: foo''\<rparr>) = Some ''audit: foo''
   \<and> same_ignoring_case (take 7 ''audit: foo'') ''AUDIT: ''
   \<and> pg_strncasecmp ''audit: foo'' PGAUDIT_PREFIX_LINE PGAUDIT_PREFIX_LINE_LENGTH = 0
   \<and> (\<exists>s' fh. pgauditlogtofile_emit_log demo_host demo_guc demo_worker
                   (demo_event\<lparr>message := Some ''audit: foo''\<rparr>)
                 = Inr (demo_event\<lparr>message := Some ''audit: foo'', output_to_server := False\<rparr>, s')
          \<and> file_handler s' = Some fh
          \<and> writes_of (io_trace s') =
               [Fwrite fh (join_with CHR '',''
                  [''2023-11-14 10:15:00.000 CET'', ''alice'', ''shop'', ''4242'', ''10.0.0.7:5432'',
                   ''65532db0.1092'', ''1'', ''SELECT'', ''2023-11-14 09:20:00 CET'', ''3/7'', ''0'',
                   ''00000'', ''foo'', [], [], [], [], [], ''select 1'', [], [], ''psql'']
                  @ [CHR 0x0A])])"
proof -
  define e where "e = demo_event\<lparr>message := Some ''audit: foo''\<rparr>"
  define fs where "fs = [''2023-11-14 10:15:00.000 CET'', ''alice'', ''shop'', ''4242'', ''10.0.0.7:5432'',
                   ''65532db0.1092'', ''1'', ''SELECT'', ''2023-11-14 09:20:00 CET'', ''3/7'', ''0'',
                   ''00000'', ''foo'', [], [], [], [], [], ''select 1'', [], [], ''psql'']"
  have en: "pgauditlogtofile_is_enabled demo_guc demo_worker"
    by (simp add: pgauditlogtofile_is_enabled_def demo_guc_def demo_worker_def)
  have age: "0 < guc_pgaudit_log_rotation_age demo_guc" by (simp add: demo_guc_def)
  have msg: "message e = Some ''audit: foo''" by (simp add: e_def)
  have pre: "same_ignoring_case (take 7 ''audit: foo'') ''AUDIT: ''"
    by (simp add: same_ignoring_case_def fold_upper_def)
  have dr: "drop 7 ''audit: foo'' = ''foo''" by simp
  have fields: "audit_fields demo_host (next_log_line demo_host demo_worker)
      (e\<lparr>output_to_server := False\<rparr>) ''foo'' = fs"
    unfolding e_def fs_def
    using demo_fields [of "Some ''audit: foo''" "''foo''"] by simp
  have nohook: "call_prev_hook demo_host x = x" for x
    by (simp add: call_prev_hook_def demo_host_def)
  have opens: "\<forall>p. fopen_succeeds demo_host p" by (simp add: demo_host_def)
  have full: "fwrite_count demo_host l = length l" for l by (simp add: demo_host_def)
  have empty: "io_trace demo_worker = []" by (simp add: demo_worker_def)
  from audit_prefix_case_insensitive [OF en age msg pre, of demo_host]
  have cmp: "pg_strncasecmp ''audit: foo'' PGAUDIT_PREFIX_LINE PGAUDIT_PREFIX_LINE_LENGTH = 0"
    by blast
  from audit_prefix_case_insensitive [OF en age msg pre, of demo_host]
  obtain recorded s' new line where
      line: "line = join_with CHR '',''
               (audit_fields demo_host (next_log_line demo_host demo_worker)
                  (e\<lparr>output_to_server := False\<rparr>) (drop 7 ''audit: foo'')) @ [CHR 0x0A]"
    and hook0: "pgauditlogtofile_emit_log demo_host demo_guc demo_worker e
               = Inr (call_prev_hook demo_host (e\<lparr>output_to_server := \<not> recorded\<rparr>), s')"
    and tr: "io_trace s' = io_trace demo_worker @ new"
    and wr0: "case file_handler s' of
                 None \<Rightarrow> \<not> recorded \<and> writes_of new = []
               | Some fh \<Rightarrow> writes_of new = [Fwrite fh (take (fwrite_count demo_host line) line)]
                            \<and> (recorded \<longleftrightarrow> fwrite_count demo_host line = length line)"
    and op0: "(\<forall>p. fopen_succeeds demo_host p) \<longrightarrow> file_handler s' \<noteq> None"
    by blast
  have line': "line = join_with CHR '','' fs @ [CHR 0x0A]"
    using line unfolding dr fields .
  have hook: "pgauditlogtofile_emit_log demo_host demo_guc demo_worker e
               = Inr (e\<lparr>output_to_server := \<not> recorded\<rparr>, s')"
    using hook0 by (simp add: nohook)
  have new: "new = io_trace s'" using tr empty by simp
  have op: "file_handler s' \<noteq> None" using op0 opens by blast
  from op obtain fh where fh: "file_handler s' = Some fh" by auto
  have rec: recorded
    and w: "writes_of (io_trace s') = [Fwrite fh (join_with CHR '','' fs @ [CHR 0x0A])]"
    using wr0 unfolding fh new line' by (simp_all add: full)
  have flag: "e\<lparr>output_to_server := \<not> recorded\<rparr> = e\<lparr>output_to_server := False\<rparr>"
    using rec by simp
  have "\<exists>s' fh. pgauditlogtofile_emit_log demo_host demo_guc demo_worker e
                 = Inr (e\<lparr>output_to_server := False\<rparr>, s')
          \<and> file_handler s' = Some fh
          \<and> writes_of (io_trace s') = [Fwrite fh (join_with CHR '','' fs @ [CHR 0x0A])]"
    using hook fh w unfolding flag by blast
  then show ?thesis
    using en age msg pre cmp unfolding e_def fs_def by simp
qed

subsection \<open>The shared flag under interleaving\<close>

lemma lock_inv_initial: "lock_inv initial"
  by (simp add: lock_inv_def initial_def in_critical_def)

lemma seen_inv_initial: "seen_inv initial"
  by (simp add: seen_inv_def initial_def seen_by_def)

text \<open>
  C6 as stated fails. Observing the flag and clearing it are not one step under the
  lock: after a single assignment at line 139, processes 1 and 2 have both found the flag
  set while nobody holds the lock, and both go on to clear it and to rotate. And a
  process can find the flag set twice for the same configuration change: the flag is
  assigned once for every call of the request, and two processes call it for change 7.
\<close>

theorem flag_observed_twice_counterexample:
  "view [1, 2] (run race_schedule initial)
     = Some (1, [(1, 7), (2, 7)], None, [Check_Acquire, Check_Acquire], [])
   \<and> view [1, 2] (run (race_schedule @ race_finish) initial)
     = Some (1, [(1, 7), (2, 7)], None, [Idle, Idle], [1, 2])
   \<and> view [1] (run repeat_schedule initial)
     = Some (2, [(1, 7), (1, 7)], None, [Check_Acquire], [1])"
  by (simp add: view_def race_schedule_def race_finish_def repeat_schedule_def initial_def goto_def)


lemma found_if_busy: "lock_inv \<sigma> \<Longrightarrow> pcs \<sigma> w \<noteq> Idle \<Longrightarrow> block_found \<sigma>"
  by (auto simp: lock_inv_def)

lemma lock_inv_keep:
  assumes "lock_inv \<sigma>" and "in_critical l = in_critical (pcs \<sigma> w)"
      and "shm_lock \<sigma>' = shm_lock \<sigma>" and "pcs \<sigma>' = (pcs \<sigma>)(w := l)" and "block_found \<sigma>'"
  shows "lock_inv \<sigma>'"
  using assms unfolding lock_inv_def by auto

lemma lock_inv_acquire:
  assumes "lock_inv \<sigma>" and "shm_lock \<sigma> = None" and "in_critical l"
      and "shm_lock \<sigma>' = Some w" and "pcs \<sigma>' = (pcs \<sigma>)(w := l)" and "block_found \<sigma>'"
  shows "lock_inv \<sigma>'"
  using assms unfolding lock_inv_def by auto

lemma lock_inv_release:
  assumes inv: "lock_inv \<sigma>" and held: "in_critical (pcs \<sigma> w)" and out: "\<not> in_critical l"
      and free: "shm_lock \<sigma>' = None" and pcs: "pcs \<sigma>' = (pcs \<sigma>)(w := l)"
      and found: "block_found \<sigma>'"
  shows "lock_inv \<sigma>'"
proof -
  have holder: "shm_lock \<sigma> = Some w" using inv held by (simp add: lock_inv_def)
  have "\<not> in_critical (pcs \<sigma>' v)" for v
  proof (cases "v = w")
    case True
    then show ?thesis using out pcs by simp
  next
    case False
    then have "shm_lock \<sigma> \<noteq> Some v" using holder by simp
    then show ?thesis using inv False pcs by (simp add: lock_inv_def)
  qed
  then show ?thesis using free found by (simp add: lock_inv_def)
qed

lemma lock_inv_step:
  assumes inv: "lock_inv \<sigma>" and st: "step a \<sigma> = Some \<sigma>'"
  shows "lock_inv \<sigma>'"
proof (cases a)
  case Startup
  show ?thesis
  proof (cases "block_found \<sigma>")
    case True
    then show ?thesis using st inv Startup by simp
  next
    case False
    then have idle: "\<forall>w. pcs \<sigma> w = Idle" using inv by (simp add: lock_inv_def)
    have "\<sigma>' = \<sigma>\<lparr>block_found := True, shm_lock := None, shm_force_rotation := False\<rparr>"
      using st Startup False by simp
    then show ?thesis using idle by (simp add: lock_inv_def in_critical_def)
  qed
next
  case (Call_request w c)
  show ?thesis
  proof (cases "block_found \<sigma>")
    case False
    then show ?thesis using st inv Call_request by (auto split: if_splits)
  next
    case True
    then have "pcs \<sigma> w = Idle"
        and "\<sigma>' = goto w Request_Test (\<sigma>\<lparr>change_of := (change_of \<sigma>)(w := c)\<rparr>)"
      using st Call_request by (auto split: if_splits)
    then show ?thesis using True
      by (intro lock_inv_keep [OF inv, of Request_Test w]) (simp_all add: goto_def in_critical_def)
  qed
next
  case (Call_check w)
  show ?thesis
  proof (cases "block_found \<sigma>")
    case False
    then show ?thesis using st inv Call_check by (auto split: if_splits)
  next
    case True
    then have "pcs \<sigma> w = Idle" and "\<sigma>' = goto w Check_Test \<sigma>"
      using st Call_check by (auto split: if_splits)
    then show ?thesis using True
      by (intro lock_inv_keep [OF inv, of Check_Test w]) (simp_all add: goto_def in_critical_def)
  qed
next
  case (Step w)
  have busy: "pcs \<sigma> w \<noteq> Idle" using st Step by (auto split: pc.splits)
  have found: "block_found \<sigma>" using inv busy by (rule found_if_busy)
  show ?thesis
  proof (cases "pcs \<sigma> w")
    case Idle
    then show ?thesis using busy by simp
  next
    case Request_Test
    show ?thesis
    proof (cases "shm_force_rotation \<sigma>")
      case True
      then have "\<sigma>' = goto w Idle \<sigma>" using st Step Request_Test by simp
      then show ?thesis using Request_Test found
        by (intro lock_inv_keep [OF inv, of Idle w]) (simp_all add: goto_def in_critical_def)
    next
      case False
      then have "\<sigma>' = goto w Request_Acquire \<sigma>" using st Step Request_Test by simp
      then show ?thesis using Request_Test found
        by (intro lock_inv_keep [OF inv, of Request_Acquire w]) (simp_all add: goto_def in_critical_def)
    qed
  next
    case Request_Acquire
    then have "shm_lock \<sigma> = None" and "\<sigma>' = goto w Request_Set (\<sigma>\<lparr>shm_lock := Some w\<rparr>)"
      using st Step by (auto split: if_splits)
    then show ?thesis using found
      by (intro lock_inv_acquire [OF inv, of Request_Set _ w]) (simp_all add: goto_def in_critical_def)
  next
    case Request_Set
    then have "\<sigma>' = goto w Request_Release
        (\<sigma>\<lparr>shm_force_rotation := True, set_for := change_of \<sigma> w, flag_sets := flag_sets \<sigma> + 1\<rparr>)"
      using st Step by simp
    then show ?thesis using Request_Set found
      by (intro lock_inv_keep [OF inv, of Request_Release w]) (simp_all add: goto_def in_critical_def)
  next
    case Request_Release
    then have "\<sigma>' = goto w Idle (\<sigma>\<lparr>shm_lock := None\<rparr>)" using st Step by simp
    then show ?thesis using Request_Release found
      by (intro lock_inv_release [OF inv, of w Idle]) (simp_all add: goto_def in_critical_def)
  next
    case Check_Test
    show ?thesis
    proof (cases "shm_force_rotation \<sigma>")
      case True
      then have "\<sigma>' = goto w Check_Acquire (\<sigma>\<lparr>seen_true := seen_true \<sigma> @ [(w, set_for \<sigma>)]\<rparr>)"
        using st Step Check_Test by simp
      then show ?thesis using Check_Test found
        by (intro lock_inv_keep [OF inv, of Check_Acquire w]) (simp_all add: goto_def in_critical_def)
    next
      case False
      then have "\<sigma>' = goto w Idle \<sigma>" using st Step Check_Test by simp
      then show ?thesis using Check_Test found
        by (intro lock_inv_keep [OF inv, of Idle w]) (simp_all add: goto_def in_critical_def)
    qed
  next
    case Check_Acquire
    then have "shm_lock \<sigma> = None" and "\<sigma>' = goto w Check_Clear (\<sigma>\<lparr>shm_lock := Some w\<rparr>)"
      using st Step by (auto split: if_splits)
    then show ?thesis using found
      by (intro lock_inv_acquire [OF inv, of Check_Clear _ w]) (simp_all add: goto_def in_critical_def)
  next
    case Check_Clear
    then have "\<sigma>' = goto w Check_Release (\<sigma>\<lparr>shm_force_rotation := False\<rparr>)"
      using st Step by simp
    then show ?thesis using Check_Clear found
      by (intro lock_inv_keep [OF inv, of Check_Release w]) (simp_all add: goto_def in_critical_def)
  next
    case Check_Release
    then have "\<sigma>' = goto w Idle (\<sigma>\<lparr>shm_lock := None, rotations := rotations \<sigma> @ [w]\<rparr>)"
      using st Step by simp
    then show ?thesis using Check_Release found
      by (intro lock_inv_release [OF inv, of w Idle]) (simp_all add: goto_def in_critical_def)
  qed
qed

lemma lock_inv_run:
  "lock_inv \<sigma> \<Longrightarrow> run sched \<sigma> = Some \<sigma>' \<Longrightarrow> lock_inv \<sigma>'"
proof (induction sched arbitrary: \<sigma>)
  case Nil
  then show ?case by simp
next
  case (Cons a sched)
  then obtain \<sigma>1 where s: "step a \<sigma> = Some \<sigma>1" and r: "run sched \<sigma>1 = Some \<sigma>'"
    by (auto split: option.splits)
  from lock_inv_step [OF Cons.prems(1) s] r show ?case by (rule Cons.IH)
qed

text \<open>A step that leaves the observations, the count of assignments and the flag alone,
  and does not take a process out of the places where it has observed but not cleared.\<close>

lemma seen_inv_quiet:
  assumes inv: "seen_inv \<sigma>"
      and "seen_true \<sigma>' = seen_true \<sigma>" and "flag_sets \<sigma>' = flag_sets \<sigma>"
      and "shm_force_rotation \<sigma>' = shm_force_rotation \<sigma>"
      and "pcs \<sigma>' = (pcs \<sigma>)(w := l)"
      and "pending (pcs \<sigma> w) \<longrightarrow> pending l" and "l \<noteq> Check_Release"
  shows "seen_inv \<sigma>'"
  using assms unfolding seen_inv_def seen_by_def by auto

lemma seen_inv_cleared:
  assumes inv: "seen_inv \<sigma>"
      and "seen_true \<sigma>' = seen_true \<sigma>" and "flag_sets \<sigma>' = flag_sets \<sigma>"
      and "\<not> shm_force_rotation \<sigma>'"
  shows "seen_inv \<sigma>'"
  using assms unfolding seen_inv_def seen_by_def by auto

lemma seen_inv_step:
  assumes linv: "lock_inv \<sigma>" and inv: "seen_inv \<sigma>" and st: "step a \<sigma> = Some \<sigma>'"
  shows "seen_inv \<sigma>'"
proof (cases a)
  case Startup
  show ?thesis
  proof (cases "block_found \<sigma>")
    case True
    then show ?thesis using st inv Startup by simp
  next
    case False
    then have "\<sigma>' = \<sigma>\<lparr>block_found := True, shm_lock := None, shm_force_rotation := False\<rparr>"
      using st Startup by simp
    then show ?thesis by (intro seen_inv_cleared [OF inv]) simp_all
  qed
next
  case (Call_request w c)
  show ?thesis
  proof (cases "block_found \<sigma>")
    case False
    then show ?thesis using st inv Call_request by (auto split: if_splits)
  next
    case True
    then have "pcs \<sigma> w = Idle"
        and "\<sigma>' = goto w Request_Test (\<sigma>\<lparr>change_of := (change_of \<sigma>)(w := c)\<rparr>)"
      using st Call_request by (auto split: if_splits)
    then show ?thesis
      by (intro seen_inv_quiet [OF inv, of _ w Request_Test]) (simp_all add: goto_def pending_def)
  qed
next
  case (Call_check w)
  show ?thesis
  proof (cases "block_found \<sigma>")
    case False
    then show ?thesis using st inv Call_check by (auto split: if_splits)
  next
    case True
    then have "pcs \<sigma> w = Idle" and "\<sigma>' = goto w Check_Test \<sigma>"
      using st Call_check by (auto split: if_splits)
    then show ?thesis
      by (intro seen_inv_quiet [OF inv, of _ w Check_Test]) (simp_all add: goto_def pending_def)
  qed
next
  case (Step w)
  show ?thesis
  proof (cases "pcs \<sigma> w")
    case Idle
    then show ?thesis using st Step by simp
  next
    case Request_Test
    show ?thesis
    proof (cases "shm_force_rotation \<sigma>")
      case True
      then have "\<sigma>' = goto w Idle \<sigma>" using st Step Request_Test by simp
      then show ?thesis using Request_Test
        by (intro seen_inv_quiet [OF inv, of _ w Idle]) (simp_all add: goto_def pending_def)
    next
      case False
      then have "\<sigma>' = goto w Request_Acquire \<sigma>" using st Step Request_Test by simp
      then show ?thesis using Request_Test
        by (intro seen_inv_quiet [OF inv, of _ w Request_Acquire]) (simp_all add: goto_def pending_def)
    qed
  next
    case Request_Acquire
    then have "\<sigma>' = goto w Request_Set (\<sigma>\<lparr>shm_lock := Some w\<rparr>)"
      using st Step by (auto split: if_splits)
    then show ?thesis using Request_Acquire
      by (intro seen_inv_quiet [OF inv, of _ w Request_Set]) (simp_all add: goto_def pending_def)
  next
    case Request_Set
    then have s': "\<sigma>' = goto w Request_Release
        (\<sigma>\<lparr>shm_force_rotation := True, set_for := change_of \<sigma> w, flag_sets := flag_sets \<sigma> + 1\<rparr>)"
      using st Step by simp
    have holder: "shm_lock \<sigma> = Some w"
      using linv Request_Set by (simp add: lock_inv_def in_critical_def)
    have none: "pcs \<sigma> v \<noteq> Check_Release" for v
    proof
      assume "pcs \<sigma> v = Check_Release"
      then have "shm_lock \<sigma> = Some v" using linv by (simp add: lock_inv_def in_critical_def)
      then have "v = w" using holder by simp
      then show False using \<open>pcs \<sigma> v = Check_Release\<close> Request_Set by simp
    qed
    have le: "seen_by v \<sigma> \<le> flag_sets \<sigma>" for v using inv by (simp add: seen_inv_def)
    have same: "seen_by v \<sigma>' = seen_by v \<sigma>" for v by (simp add: s' seen_by_def goto_def)
    have sets: "flag_sets \<sigma>' = flag_sets \<sigma> + 1" by (simp add: s' goto_def)
    have rel: "pcs \<sigma>' v \<noteq> Check_Release" for v using none [of v] by (simp add: s' goto_def)
    have a: "seen_by v \<sigma> \<le> flag_sets \<sigma> + 1" for v using le [of v] by simp
    have b: "seen_by v \<sigma> < flag_sets \<sigma> + 1" for v using le [of v] by simp
    show ?thesis
      unfolding seen_inv_def same sets using a b rel by blast
  next
    case Request_Release
    then have "\<sigma>' = goto w Idle (\<sigma>\<lparr>shm_lock := None\<rparr>)" using st Step by simp
    then show ?thesis using Request_Release
      by (intro seen_inv_quiet [OF inv, of _ w Idle]) (simp_all add: goto_def pending_def)
  next
    case Check_Test
    show ?thesis
    proof (cases "shm_force_rotation \<sigma>")
      case False
      then have "\<sigma>' = goto w Idle \<sigma>" using st Step Check_Test by simp
      then show ?thesis using Check_Test
        by (intro seen_inv_quiet [OF inv, of _ w Idle]) (simp_all add: goto_def pending_def)
    next
      case True
      then have s': "\<sigma>' = goto w Check_Acquire (\<sigma>\<lparr>seen_true := seen_true \<sigma> @ [(w, set_for \<sigma>)]\<rparr>)"
        using st Step Check_Test by simp
      have "pending (pcs \<sigma> w) \<or> \<not> shm_force_rotation \<sigma> \<or> seen_by w \<sigma> < flag_sets \<sigma>"
        using inv unfolding seen_inv_def by blast
      then have lt: "seen_by w \<sigma> < flag_sets \<sigma>"
        using True Check_Test by (simp add: pending_def)
      have mine: "seen_by w \<sigma>' = seen_by w \<sigma> + 1" by (simp add: s' seen_by_def goto_def)
      have other: "v \<noteq> w \<Longrightarrow> seen_by v \<sigma>' = seen_by v \<sigma>" for v
        by (simp add: s' seen_by_def goto_def)
      have sets: "flag_sets \<sigma>' = flag_sets \<sigma>" by (simp add: s' goto_def)
      have flag: "shm_force_rotation \<sigma>' = shm_force_rotation \<sigma>" by (simp add: s' goto_def)
      have pc_w: "pcs \<sigma>' w = Check_Acquire" by (simp add: s' goto_def)
      have pc_v: "v \<noteq> w \<Longrightarrow> pcs \<sigma>' v = pcs \<sigma> v" for v by (simp add: s' goto_def)
      have a: "seen_by v \<sigma>' \<le> flag_sets \<sigma>'" for v
        using inv lt mine other [of v] sets by (cases "v = w") (auto simp: seen_inv_def)
      have b: "pending (pcs \<sigma>' v) \<or> \<not> shm_force_rotation \<sigma>' \<or> seen_by v \<sigma>' < flag_sets \<sigma>'" for v
      proof (cases "v = w")
        case True
        then show ?thesis using pc_w by (simp add: pending_def)
      next
        case False
        then show ?thesis using inv other [of v] pc_v [of v] sets flag
          by (auto simp: seen_inv_def)
      qed
      have c: "pcs \<sigma>' v \<noteq> Check_Release \<or> \<not> shm_force_rotation \<sigma>'" for v
        using inv pc_w pc_v [of v] flag by (cases "v = w") (auto simp: seen_inv_def)
      show ?thesis unfolding seen_inv_def using a b c by blast
    qed
  next
    case Check_Acquire
    then have "\<sigma>' = goto w Check_Clear (\<sigma>\<lparr>shm_lock := Some w\<rparr>)"
      using st Step by (auto split: if_splits)
    then show ?thesis using Check_Acquire
      by (intro seen_inv_quiet [OF inv, of _ w Check_Clear]) (simp_all add: goto_def pending_def)
  next
    case Check_Clear
    then have "\<sigma>' = goto w Check_Release (\<sigma>\<lparr>shm_force_rotation := False\<rparr>)"
      using st Step by simp
    then show ?thesis by (intro seen_inv_cleared [OF inv]) (simp_all add: goto_def)
  next
    case Check_Release
    then have s': "\<sigma>' = goto w Idle (\<sigma>\<lparr>shm_lock := None, rotations := rotations \<sigma> @ [w]\<rparr>)"
      using st Step by simp
    have "\<not> shm_force_rotation \<sigma>" using inv Check_Release by (auto simp: seen_inv_def)
    then show ?thesis by (intro seen_inv_cleared [OF inv]) (simp_all add: s' goto_def)
  qed
qed

lemma invariants_run:
  "lock_inv \<sigma> \<Longrightarrow> seen_inv \<sigma> \<Longrightarrow> run sched \<sigma> = Some \<sigma>' \<Longrightarrow> lock_inv \<sigma>' \<and> seen_inv \<sigma>'"
proof (induction sched arbitrary: \<sigma>)
  case Nil
  then show ?case by simp
next
  case (Cons a sched)
  then obtain \<sigma>1 where s: "step a \<sigma> = Some \<sigma>1" and r: "run sched \<sigma>1 = Some \<sigma>'"
    by (auto split: option.splits)
  have "lock_inv \<sigma>1" using Cons.prems(1) s by (rule lock_inv_step)
  moreover have "seen_inv \<sigma>1" using Cons.prems(1,2) s by (rule seen_inv_step)
  ultimately show ?case using r by (rule Cons.IH)
qed


lemma step_flag:
  assumes st: "step a \<sigma> = Some \<sigma>'"
  shows "shm_force_rotation \<sigma>' =
           (case flag_written a \<sigma> of None \<Rightarrow> shm_force_rotation \<sigma> | Some b \<Rightarrow> b)"
proof (cases a)
  case Startup
  then show ?thesis using st by auto
next
  case (Call_request w c)
  then show ?thesis using st by (auto simp: goto_def split: if_splits)
next
  case (Call_check w)
  then show ?thesis using st by (auto simp: goto_def split: if_splits)
next
  case (Step w)
  then show ?thesis using st
    by (cases "pcs \<sigma> w") (auto simp: goto_def split: if_splits)
qed

text \<open>A process that runs alone does what the sequential functions do to the flag.\<close>

lemma solo_request:
  assumes "block_found \<sigma>" and "shm_lock \<sigma> = None" and "pcs \<sigma> w = Idle"
  shows "\<exists>\<sigma>'. run (if shm_force_rotation \<sigma> then [Call_request w c, Step w]
                   else [Call_request w c, Step w, Step w, Step w, Step w]) \<sigma> = Some \<sigma>'
           \<and> shm_force_rotation \<sigma>' \<and> shm_lock \<sigma>' = None \<and> pcs \<sigma>' w = Idle
           \<and> pgauditlogtofile_request_rotation True (s\<lparr>pgaudit_log_shm := Some (shm_force_rotation \<sigma>)\<rparr>)
               = Inr (s\<lparr>pgaudit_log_shm := Some (shm_force_rotation \<sigma>')\<rparr>)"
  using assms by (simp add: goto_def pgauditlogtofile_request_rotation_def)

lemma solo_check:
  assumes "block_found \<sigma>" and "shm_lock \<sigma> = None" and "pcs \<sigma> w = Idle"
  shows "\<exists>\<sigma>'. run (if shm_force_rotation \<sigma> then [Call_check w, Step w, Step w, Step w, Step w]
                   else [Call_check w, Step w]) \<sigma> = Some \<sigma>'
           \<and> \<not> shm_force_rotation \<sigma>' \<and> shm_lock \<sigma>' = None \<and> pcs \<sigma>' w = Idle
           \<and> (shm_force_rotation \<sigma> \<longrightarrow>
                 pgauditlogtofile_needs_rotate_file h g (s\<lparr>pgaudit_log_shm := Some (shm_force_rotation \<sigma>)\<rparr>)
                   = Inr (True, s\<lparr>pgaudit_log_shm := Some (shm_force_rotation \<sigma>')\<rparr>))"
  using assms by (simp add: goto_def pgauditlogtofile_needs_rotate_file_def)

lemma solo_startup:
  "\<exists>\<sigma>'. step Startup initial = Some \<sigma>' \<and> block_found \<sigma>' \<and> \<not> shm_force_rotation \<sigma>'
      \<and> (\<exists>s'. pgauditlogtofile_shmem_startup demo_host demo_guc False segment s = Inr s'
             \<and> pgaudit_log_shm s' = Some (shm_force_rotation \<sigma>'))"
  by (simp add: initial_def pgauditlogtofile_shmem_startup_def
      pgauditlogtofile_calculate_next_rotation_time_def pgauditlogtofile_calculate_filename_def
      demo_guc_def SECS_PER_MINUTE_def Let_def)

text \<open>
  C6, as the code has it. In every state reached from the initial one by any
  interleaving: an access that assigns the flag is either the start-up hook creating the
  block, which assigns false while no process uses the block, or the access of a process
  that holds the lock of the block, and then true is assigned only at line 139 of
  \<^verbatim>\<open>pgauditlogtofile_request_rotation\<close> and false only at line 369 of the rotation check;
  no other access changes the flag. The tests of the flag (lines 137 and 367) are made
  by a process that does not hold the lock. No process has found the flag set more often
  than the flag has been assigned true.
\<close>

theorem flag_written_under_lock:
  assumes reach: "run sched initial = Some \<sigma>" and st: "step a \<sigma> = Some \<sigma>'"
  shows "(case flag_written a \<sigma> of
            None \<Rightarrow> shm_force_rotation \<sigma>' = shm_force_rotation \<sigma>
          | Some b \<Rightarrow>
              shm_force_rotation \<sigma>' = b
              \<and> ((a = Startup \<and> \<not> b \<and> \<not> block_found \<sigma> \<and> shm_lock \<sigma> = None
                    \<and> (\<forall>w. pcs \<sigma> w = Idle))
                 \<or> (\<exists>w. a = Step w \<and> shm_lock \<sigma> = Some w
                        \<and> (if b then pcs \<sigma> w = Request_Set else pcs \<sigma> w = Check_Clear))))
       \<and> (\<forall>w. pcs \<sigma> w = Request_Test \<or> pcs \<sigma> w = Check_Test \<longrightarrow> shm_lock \<sigma> \<noteq> Some w)
       \<and> (\<forall>w. seen_by w \<sigma> \<le> flag_sets \<sigma>)"
proof -
  have inv: "lock_inv \<sigma>" and sinv: "seen_inv \<sigma>"
    using invariants_run [OF lock_inv_initial seen_inv_initial reach] by simp_all
  have flag: "shm_force_rotation \<sigma>' =
           (case flag_written a \<sigma> of None \<Rightarrow> shm_force_rotation \<sigma> | Some b \<Rightarrow> b)"
    using st by (rule step_flag)
  have first: "case flag_written a \<sigma> of
            None \<Rightarrow> shm_force_rotation \<sigma>' = shm_force_rotation \<sigma>
          | Some b \<Rightarrow>
              shm_force_rotation \<sigma>' = b
              \<and> ((a = Startup \<and> \<not> b \<and> \<not> block_found \<sigma> \<and> shm_lock \<sigma> = None
                    \<and> (\<forall>w. pcs \<sigma> w = Idle))
                 \<or> (\<exists>w. a = Step w \<and> shm_lock \<sigma> = Some w
                        \<and> (if b then pcs \<sigma> w = Request_Set else pcs \<sigma> w = Check_Clear)))"
  proof (cases "flag_written a \<sigma>")
    case None
    then show ?thesis using flag by simp
  next
    case (Some b)
    have val: "shm_force_rotation \<sigma>' = b" using flag Some by simp
    show ?thesis
    proof (cases a)
      case Startup
      then have nf: "\<not> block_found \<sigma>" and b: "\<not> b" using Some by (auto split: if_splits)
      have idle: "\<forall>w. pcs \<sigma> w = Idle" using inv nf by (simp add: lock_inv_def)
      have free: "shm_lock \<sigma> = None"
      proof (cases "shm_lock \<sigma>")
        case None
        then show ?thesis .
      next
        case (Some w)
        then have "in_critical (pcs \<sigma> w)" using inv unfolding lock_inv_def by blast
        then show ?thesis using idle by (simp add: in_critical_def)
      qed
      show ?thesis using Some val Startup nf b idle free by simp
    next
      case (Call_request w c)
      then show ?thesis using Some by simp
    next
      case (Call_check w)
      then show ?thesis using Some by simp
    next
      case (Step w)
      then have at: "if b then pcs \<sigma> w = Request_Set else pcs \<sigma> w = Check_Clear"
        using Some by (auto split: if_splits)
      then have "in_critical (pcs \<sigma> w)" by (auto simp: in_critical_def split: if_splits)
      then have "shm_lock \<sigma> = Some w" using inv by (simp add: lock_inv_def)
      then show ?thesis using Some val Step at by auto
    qed
  qed
  have second: "\<forall>w. pcs \<sigma> w = Request_Test \<or> pcs \<sigma> w = Check_Test \<longrightarrow> shm_lock \<sigma> \<noteq> Some w"
    using inv by (auto simp: lock_inv_def in_critical_def)
  have third: "\<forall>w. seen_by w \<sigma> \<le> flag_sets \<sigma>"
    using sinv by (simp add: seen_inv_def)
  show ?thesis using first second third by blast
qed

theorem flag_written_under_lock_witness:
  "run [Startup, Call_request 0 7, Step 0, Step 0] initial
      = Some (initial\<lparr>block_found := True, shm_lock := Some 0,
                pcs := (pcs initial)(0 := Request_Set),
                change_of := (change_of initial)(0 := 7)\<rparr>)
   \<and> flag_written (Step 0)
        (initial\<lparr>block_found := True, shm_lock := Some 0,
                pcs := (pcs initial)(0 := Request_Set),
                change_of := (change_of initial)(0 := 7)\<rparr>) = Some True
   \<and> (\<exists>\<sigma>'. step (Step 0)
               (initial\<lparr>block_found := True, shm_lock := Some 0,
                  pcs := (pcs initial)(0 := Request_Set),
                  change_of := (change_of initial)(0 := 7)\<rparr>) = Some \<sigma>'
           \<and> shm_force_rotation \<sigma>')
   \<and> shm_lock (initial\<lparr>block_found := True, shm_lock := Some 0,
                pcs := (pcs initial)(0 := Request_Set),
                change_of := (change_of initial)(0 := 7)\<rparr>) = Some 0"
proof -
  define \<sigma> where "\<sigma> = initial\<lparr>block_found := True, shm_lock := Some 0,
                pcs := (pcs initial)(0 := Request_Set),
                change_of := (change_of initial)(0 := 7)\<rparr>"
  have reach: "run [Startup, Call_request 0 7, Step 0, Step 0] initial = Some \<sigma>"
    by (simp add: \<sigma>_def initial_def goto_def)
  have wr: "flag_written (Step 0) \<sigma> = Some True" by (simp add: \<sigma>_def initial_def)
  obtain \<sigma>' where st: "step (Step 0) \<sigma> = Some \<sigma>'"
    by (simp add: \<sigma>_def initial_def goto_def)
  have "shm_force_rotation \<sigma>' \<and> shm_lock \<sigma> = Some 0"
    using flag_written_under_lock [OF reach st] wr by auto
  then show ?thesis
    using reach wr st unfolding \<sigma>_def by auto
qed

end
